theory Spec2Isabelle
  imports Complex_Main "HOL-Library.Multiset"
begin

section \<open>HBMP Survey Manager: the question-bank compiler of the Apps Script\<close>

text \<open>
  The development embeds four functions of the Apps Script (Code.gs):
  \<^verbatim>\<open>readRespondentDetails\<close>, \<^verbatim>\<open>readQuestionsWithValidation\<close>, \<^verbatim>\<open>buildForm\<close> and
  \<^verbatim>\<open>handleGenerateForm\<close>. The spec's \<^emph>\<open>validate\<close> is \<^verbatim>\<open>handleGenerateForm\<close> with
  \<^verbatim>\<open>dryRun = true\<close>, its \<^emph>\<open>compile\<close> is the same function with \<^verbatim>\<open>dryRun = false\<close>.
  The instruction stream is the sequence of \<^verbatim>\<open>form.add...Item()\<close> calls that
  \<^verbatim>\<open>buildForm\<close> makes, in call order.
\<close>

subsection \<open>JavaScript values and the runtime library\<close>

text \<open>
  A sheet cell read by \<^verbatim>\<open>getValues()\<close> is a string, a number or a boolean; a column
  whose header is missing reads as \<^verbatim>\<open>undefined\<close>. Numbers are modelled by reals: the
  code only compares them and subtracts them to take a sign, and \<^verbatim>\<open>NaN\<close> never
  survives \<^verbatim>\<open>parseFloat(x) || 0\<close>. Date cells are not modelled.
\<close>

datatype jsval = JUndefined | JString string | JNumber real | JBoolean bool

text \<open>
  The built-in string and number functions the script calls are parameters of the model:
  every theorem below holds for each implementation of them. \<open>parseFloat\<close> is given
  on strings and returns \<open>None\<close> for \<^verbatim>\<open>NaN\<close>.
\<close>

record js =
  toUpperCase :: "string \<Rightarrow> string"
  trim :: "string \<Rightarrow> string"
  numberToString :: "real \<Rightarrow> string"
  parseFloat :: "string \<Rightarrow> real option"
  localeCompare :: "string \<Rightarrow> string \<Rightarrow> int"

text \<open>Truthiness, as \<^verbatim>\<open>!x\<close>, \<^verbatim>\<open>x && ...\<close> and \<^verbatim>\<open>x || d\<close> test it.\<close>

fun truthy :: "jsval \<Rightarrow> bool" where
  "truthy JUndefined = False"
| "truthy (JString s) = (s \<noteq> [])"
| "truthy (JNumber n) = (n \<noteq> 0)"
| "truthy (JBoolean b) = b"

definition orElse :: "jsval \<Rightarrow> jsval \<Rightarrow> jsval" where
  "orElse v d = (if truthy v then v else d)"

text \<open>
  String conversion. The script calls \<^verbatim>\<open>.toString()\<close> only on values it has found
  truthy (or on \<^verbatim>\<open>x || ''\<close>), so the \<open>JUndefined\<close> case is reached only through
  \<^verbatim>\<open>parseFloat(undefined)\<close> and through string concatenation, where it is the text
  \<^verbatim>\<open>undefined\<close>.
\<close>

fun ToString :: "js \<Rightarrow> jsval \<Rightarrow> string" where
  "ToString rt JUndefined = ''undefined''"
| "ToString rt (JString s) = s"
| "ToString rt (JNumber n) = numberToString rt n"
| "ToString rt (JBoolean b) = (if b then ''true'' else ''false'')"

fun isString :: "jsval \<Rightarrow> bool" where
  "isString (JString s) = True"
| "isString v = False"

datatype error = TypeError string

fun errorToString :: "error \<Rightarrow> string" where
  "errorToString (TypeError m) = ''TypeError: '' @ m"

subsection \<open>Rows\<close>

text \<open>
  A data row, addressed by header name as \<^verbatim>\<open>row[colIndices['Name']]\<close>; a header that
  is absent gives \<^verbatim>\<open>undefined\<close>.
\<close>

type_synonym row = "string \<rightharpoonup> jsval"

definition cell :: "row \<Rightarrow> string \<Rightarrow> jsval" where
  "cell r name = (case r name of None \<Rightarrow> JUndefined | Some v \<Rightarrow> v)"

text \<open>The test \<^verbatim>\<open>!x || x.toString().trim() === ''\<close> of both readers.\<close>

definition isBlank :: "js \<Rightarrow> jsval \<Rightarrow> bool" where
  "isBlank rt v = (if truthy v then trim rt (ToString rt v) = [] else True)"

text \<open>\<^verbatim>\<open>parseFloat(x) || 0\<close>: \<^verbatim>\<open>NaN\<close> and \<open>0\<close> both give \<open>0\<close>.\<close>

definition parseOrder :: "js \<Rightarrow> jsval \<Rightarrow> real" where
  "parseOrder rt v = (case parseFloat rt (ToString rt v) of None \<Rightarrow> 0 | Some x \<Rightarrow> x)"

definition optionColumns :: "string list" where
  "optionColumns = [''Option1'', ''Option2'', ''Option3'', ''Option4'', ''Option5'']"

text \<open>The loop over \<^verbatim>\<open>optNum = 1..5\<close> that pushes the trimmed non-blank option cells.\<close>

definition collectOptions :: "js \<Rightarrow> row \<Rightarrow> string list" where
  "collectOptions rt r =
     concat (map (\<lambda>optionCol.
        let optionValue = cell r optionCol
        in if truthy optionValue \<and> trim rt (ToString rt optionValue) \<noteq> []
           then [trim rt (ToString rt optionValue)] else [])
      optionColumns)"

subsection \<open>Records of the script\<close>

text \<open>
  The fields that a respondent field and a question share come first; both object
  literals of the script extend them.
\<close>

record entry =
  type :: string
  required :: bool
  order :: real
  options :: "string list"

record field = entry +
  fieldName :: string

record question = entry +
  questionId :: jsval
  "section" :: jsval
  questionText :: string
  goToSectionOnOption :: jsval

record stats =
  sectionsCount :: nat
  questionsCount :: nat
  skippedCount :: nat
  errors :: "string list"

datatype itemKind = MCQ | CHECKBOX | DROPDOWN | TEXT | PARAGRAPH

text \<open>
  One call on the form: \<^verbatim>\<open>addPageBreakItem().setTitle(t).setHelpText(h)\<close>, or
  \<^verbatim>\<open>add<Kind>Item()\<close> with its title, its required flag and its choices.
\<close>

datatype instruction =
  PageBreak string string
| Item itemKind string bool "string list"

record response =
  ok :: bool
  message :: string
  stats :: "stats option"
  form :: "instruction list option"

record questionsResult =
  questions :: "question list"
  stats :: stats

record scan = questionsResult +
  sections :: "jsval list"

subsection \<open>Array.prototype.sort\<close>

text \<open>
  ECMAScript fixes the result of \<^verbatim>\<open>sort\<close> only for a consistent comparator. The
  comparator of the questions is not consistent on every sheet, and it can throw, so the
  definitions follow the engine that runs the script (the script needs the V8 runtime of
  Apps Script: it uses \<^verbatim>\<open>Set\<close>), in V8's \<^verbatim>\<open>third_party/v8/builtins/array-sort.tq\<close>:

  \<^item> an array of fewer than two elements is returned as it is, without a comparator call;
  \<^item> \<^verbatim>\<open>CountAndMakeRun\<close> finds the longest run at the front of the array, ascending or
    strictly descending, and reverses a descending one;
  \<^item> \<^verbatim>\<open>BinaryInsertionSort\<close> inserts each remaining element at the place that a binary
    search in the sorted front finds.

  Every comparator call is \<^verbatim>\<open>comparefn(later, earlier)\<close>: the first argument is the
  element that stands later in the array. Only the sign of the result is used. A call
  that throws aborts the sort.

  This is all V8 does on an array of fewer than 64 elements. A longer array V8 cuts into
  runs of 32 to 64 elements, sorts each run in this way and merges the runs;
  \<open>arraySort\<close> does not follow the merge and sorts an array of any length as one run.
  For a comparator that returns and is consistent, both give the stable sorted permutation.
\<close>

text \<open>The binary search of \<^verbatim>\<open>BinaryInsertionSort\<close> in \<open>workArray[left..right)\<close>.\<close>

function findInsertionPoint ::
  "('a \<Rightarrow> 'a \<Rightarrow> error + real) \<Rightarrow> 'a \<Rightarrow> 'a list \<Rightarrow> nat \<Rightarrow> nat \<Rightarrow> error + nat" where
  "findInsertionPoint cmp pivot workArray left right =
     (if left < right then
        (case cmp pivot (workArray ! (left + (right - left) div 2)) of
           Inl e \<Rightarrow> Inl e
         | Inr result \<Rightarrow>
             if result < 0
             then findInsertionPoint cmp pivot workArray left (left + (right - left) div 2)
             else findInsertionPoint cmp pivot workArray (left + (right - left) div 2 + 1) right)
      else Inr left)"
  by pat_completeness auto
termination
  by (relation "measure (\<lambda>(cmp, pivot, workArray, left, right). right - left)") auto

declare findInsertionPoint.simps [simp del]

text \<open>
  \<^verbatim>\<open>BinaryInsertionSort\<close>: \<open>sortedPart\<close> is the sorted front of the array and the second
  list holds the elements still to insert, from left to right.
\<close>

fun binaryInsertionSort ::
  "('a \<Rightarrow> 'a \<Rightarrow> error + real) \<Rightarrow> 'a list \<Rightarrow> 'a list \<Rightarrow> error + 'a list" where
  "binaryInsertionSort cmp sortedPart [] = Inr sortedPart"
| "binaryInsertionSort cmp sortedPart (pivot # rest) =
     (case findInsertionPoint cmp pivot sortedPart 0 (length sortedPart) of
        Inl e \<Rightarrow> Inl e
      | Inr left \<Rightarrow>
          binaryInsertionSort cmp (take left sortedPart @ pivot # drop left sortedPart) rest)"

text \<open>
  The loop of \<^verbatim>\<open>CountAndMakeRun\<close>: the number of elements after the second that
  continue the run.
\<close>

fun countRun :: "('a \<Rightarrow> 'a \<Rightarrow> error + real) \<Rightarrow> bool \<Rightarrow> 'a \<Rightarrow> 'a list \<Rightarrow> error + nat" where
  "countRun cmp isDescending previousElement [] = Inr 0"
| "countRun cmp isDescending previousElement (currentElement # rest) =
     (case cmp currentElement previousElement of
        Inl e \<Rightarrow> Inl e
      | Inr result \<Rightarrow>
          if (if isDescending then result \<ge> 0 else result < 0) then Inr 0
          else (case countRun cmp isDescending currentElement rest of
                  Inl e \<Rightarrow> Inl e
                | Inr n \<Rightarrow> Inr (Suc n)))"

text \<open>\<^verbatim>\<open>CountAndMakeRun\<close>: the run, in ascending order, and the elements after it.\<close>

fun countAndMakeRun ::
  "('a \<Rightarrow> 'a \<Rightarrow> error + real) \<Rightarrow> 'a list \<Rightarrow> error + 'a list \<times> 'a list" where
  "countAndMakeRun cmp (elementHigh # elementLow # rest) =
     (case cmp elementLow elementHigh of
        Inl e \<Rightarrow> Inl e
      | Inr result \<Rightarrow>
          (case countRun cmp (result < 0) elementLow rest of
             Inl e \<Rightarrow> Inl e
           | Inr n \<Rightarrow>
               Inr (if result < 0 then rev (elementHigh # elementLow # take n rest)
                    else elementHigh # elementLow # take n rest,
                    drop n rest)))"
| "countAndMakeRun cmp workArray = Inr (workArray, [])"

definition arraySort :: "('a \<Rightarrow> 'a \<Rightarrow> error + real) \<Rightarrow> 'a list \<Rightarrow> error + 'a list" where
  "arraySort cmp xs =
     (if length xs < 2 then Inr xs
      else (case countAndMakeRun cmp xs of
              Inl e \<Rightarrow> Inl e
            | Inr (run, rest) \<Rightarrow> binaryInsertionSort cmp run rest))"

subsection \<open>readRespondentDetails\<close>

definition compareFields :: "field \<Rightarrow> field \<Rightarrow> error + real" where
  "compareFields a b = Inr (order a - order b)"

text \<open>The object literal \<^verbatim>\<open>field\<close> of the row loop, before its options are collected.\<close>

definition makeField :: "js \<Rightarrow> row \<Rightarrow> field" where
  "makeField rt r =
     \<lparr> type = toUpperCase rt (ToString rt (orElse (cell r ''Type'') (JString ''TEXT''))),
       required = (toUpperCase rt (ToString rt (orElse (cell r ''Required'') (JString ''''))) = ''TRUE''),
       order = parseOrder rt (cell r ''Order''),
       options = [],
       fieldName = trim rt (ToString rt (cell r ''FieldName'')) \<rparr>"

text \<open>The body of the row loop: the fields one row pushes (none or one).\<close>

definition respondentRow :: "js \<Rightarrow> row \<Rightarrow> field list" where
  "respondentRow rt r =
     (let fieldNameCell = cell r ''FieldName'' in
      if isBlank rt fieldNameCell then []
      else
        let field = makeField rt r
        in if type field = ''DROPDOWN''
           then (let field = field\<lparr> options := collectOptions rt r \<rparr>
                 in if length (options field) = 0 then [] else [field])
           else [field])"

definition readRespondentDetails :: "js \<Rightarrow> row list \<Rightarrow> error + field list" where
  "readRespondentDetails rt rows = arraySort compareFields (concat (map (respondentRow rt) rows))"

subsection \<open>readQuestionsWithValidation\<close>

definition validTypes :: "string list" where
  "validTypes = [''MCQ'', ''CHECKBOX'', ''DROPDOWN'', ''TEXT'', ''PARAGRAPH'']"

definition makeQuestion :: "js \<Rightarrow> row \<Rightarrow> question" where
  "makeQuestion rt r =
     \<lparr> type = toUpperCase rt (ToString rt (orElse (cell r ''Type'') (JString ''''))),
       required = (toUpperCase rt (ToString rt (orElse (cell r ''Required'') (JString ''''))) = ''TRUE''),
       order = parseOrder rt (cell r ''Order''),
       options = [],
       questionId = orElse (cell r ''QuestionId'') (JString ''''),
       section = orElse (cell r ''Section'') (JString ''''),
       questionText = ToString rt (cell r ''QuestionText''),
       goToSectionOnOption = orElse (cell r ''GoToSectionOnOption'') (JString '''') \<rparr>"

definition noOptionsError :: "question \<Rightarrow> string" where
  \<open>noOptionsError q = ''Question "'' @ questionText q @ ''" has type '' @ type q @ '' but no options''\<close>

definition invalidTypeError :: "question \<Rightarrow> string" where
  \<open>invalidTypeError q = ''Question "'' @ questionText q @ ''" has invalid type: '' @ type q\<close>

text \<open>\<^verbatim>\<open>stats.skippedCount++\<close>, and the same followed by \<^verbatim>\<open>stats.errors.push(m)\<close>.\<close>

definition skip :: "scan \<Rightarrow> scan" where
  "skip st = st\<lparr> stats := (stats st)\<lparr> skippedCount := skippedCount (stats st) + 1 \<rparr> \<rparr>"

definition reject :: "string \<Rightarrow> scan \<Rightarrow> scan" where
  "reject m st =
     st\<lparr> stats := (stats st)\<lparr> skippedCount := skippedCount (stats st) + 1,
                               errors := errors (stats st) @ [m] \<rparr> \<rparr>"

text \<open>\<^verbatim>\<open>sections.add(v)\<close> on a Set kept in insertion order.\<close>

definition setAdd :: "jsval \<Rightarrow> jsval list \<Rightarrow> jsval list" where
  "setAdd v vs = (if v \<in> set vs then vs else vs @ [v])"

definition isChoiceType :: "string \<Rightarrow> bool" where
  "isChoiceType t = (t = ''MCQ'' \<or> t = ''CHECKBOX'' \<or> t = ''DROPDOWN'')"

text \<open>
  The body of the row loop. Each \<^verbatim>\<open>continue\<close> of the source is a branch that returns
  the state reached so far; the section is tracked before the options and the type are
  checked, as in the source.
\<close>

definition processRow :: "js \<Rightarrow> scan \<Rightarrow> row \<Rightarrow> scan" where
  "processRow rt st r =
     (let questionTextCell = cell r ''QuestionText'' in
      if isBlank rt questionTextCell then skip st
      else
        let question = makeQuestion rt r;
            st = (if truthy (section question) \<and> section question \<noteq> JString ''''
                  then st\<lparr> sections := setAdd (section question) (sections st) \<rparr> else st);
            question = (if isChoiceType (type question)
                        then question\<lparr> options := collectOptions rt r \<rparr> else question)
        in if isChoiceType (type question) \<and> length (options question) = 0
           then reject (noOptionsError question) st
           else if type question \<notin> set validTypes
           then reject (invalidTypeError question) st
           else st\<lparr> questions := questions st @ [question] \<rparr>)"

definition initialScan :: scan where
  "initialScan =
     \<lparr> questions = [],
       stats = \<lparr> sectionsCount = 0, questionsCount = 0, skippedCount = 0, errors = [] \<rparr>,
       sections = [] \<rparr>"

definition scanRows :: "js \<Rightarrow> row list \<Rightarrow> scan" where
  "scanRows rt rows = foldl (processRow rt) initialScan rows"

text \<open>The comparator passed to \<^verbatim>\<open>questions.sort\<close>. A section that is not a string has
  no \<^verbatim>\<open>localeCompare\<close> method, and calling it throws.\<close>

definition compareQuestions :: "js \<Rightarrow> question \<Rightarrow> question \<Rightarrow> error + real" where
  "compareQuestions rt a b =
     (if section a \<noteq> section b then
        if section a = JString '''' then Inr 1
        else if section b = JString '''' then Inr (- 1)
        else (case section a of
                JString s \<Rightarrow> Inr (real_of_int (localeCompare rt s (ToString rt (section b))))
              | _ \<Rightarrow> Inl (TypeError ''a.section.localeCompare is not a function''))
      else Inr (order a - order b))"

text \<open>
  The argument is the Questions sheet: \<open>None\<close> when the sheet does not exist, else its
  data rows (the rows after the header; \<^verbatim>\<open>data.length <= 1\<close> is \<open>rows = []\<close>).
\<close>

definition readQuestionsWithValidation :: "js \<Rightarrow> row list option \<Rightarrow> error + questionsResult" where
  "readQuestionsWithValidation rt sheet =
     (case sheet of
        None \<Rightarrow> Inr \<lparr> questions = [], stats = (stats initialScan)\<lparr> errors := [''Questions sheet not found''] \<rparr> \<rparr>
      | Some rows \<Rightarrow>
          if rows = []
          then Inr \<lparr> questions = [],
                     stats = (stats initialScan)\<lparr> errors := [''No question rows found in Questions sheet''] \<rparr> \<rparr>
          else
            let st = scanRows rt rows in
            (case arraySort (compareQuestions rt) (questions st) of
               Inl e \<Rightarrow> Inl e
             | Inr sortedQuestions \<Rightarrow>
                 Inr \<lparr> questions = sortedQuestions,
                       stats = (stats st)\<lparr> sectionsCount := length (sections st),
                                             questionsCount := length sortedQuestions \<rparr> \<rparr>))"

subsection \<open>buildForm\<close>

text \<open>The \<^verbatim>\<open>switch (field.type)\<close> of the respondent loop; \<^verbatim>\<open>default\<close> adds nothing.\<close>

definition respondentItem :: "field \<Rightarrow> instruction list" where
  "respondentItem f =
     (if type f = ''TEXT'' then [Item TEXT (fieldName f) (required f) []]
      else if type f = ''PARAGRAPH'' then [Item PARAGRAPH (fieldName f) (required f) []]
      else if type f = ''DROPDOWN'' then [Item DROPDOWN (fieldName f) (required f) (options f)]
      else [])"

text \<open>The \<^verbatim>\<open>switch (q.type)\<close> of the question loop.\<close>

definition questionItem :: "question \<Rightarrow> instruction list" where
  "questionItem q =
     (if type q = ''MCQ'' then [Item MCQ (questionText q) (required q) (options q)]
      else if type q = ''CHECKBOX'' then [Item CHECKBOX (questionText q) (required q) (options q)]
      else if type q = ''DROPDOWN'' then [Item DROPDOWN (questionText q) (required q) (options q)]
      else if type q = ''TEXT'' then [Item TEXT (questionText q) (required q) []]
      else if type q = ''PARAGRAPH'' then [Item PARAGRAPH (questionText q) (required q) []]
      else [])"

definition sectionBreak :: "js \<Rightarrow> jsval \<Rightarrow> instruction" where
  "sectionBreak rt s = PageBreak (ToString rt s) (''Section: '' @ ToString rt s)"

text \<open>
  The question loop, with \<^verbatim>\<open>currentSection\<close> as its state (\<open>None\<close> is the initial
  \<^verbatim>\<open>null\<close>).
\<close>

fun addQuestions :: "js \<Rightarrow> jsval option \<Rightarrow> question list \<Rightarrow> instruction list" where
  "addQuestions rt currentSection [] = []"
| "addQuestions rt currentSection (q # qs) =
     (if truthy (section q) \<and> section q \<noteq> JString '''' \<and> Some (section q) \<noteq> currentSection
      then sectionBreak rt (section q) # questionItem q @ addQuestions rt (Some (section q)) qs
      else questionItem q @ addQuestions rt currentSection qs)"

definition respondentBreak :: instruction where
  "respondentBreak =
     PageBreak ''Respondent Information''
       ''Please provide your details before proceeding to the survey questions.''"

definition surveyBreak :: instruction where
  "surveyBreak = PageBreak ''Survey Questions'' ''Please answer the following questions.''"

text \<open>
  The form's title and description go to \<^verbatim>\<open>FormApp.create\<close> and are no part of the
  instruction stream, so \<open>meta\<close> is left out.
\<close>

definition buildForm :: "js \<Rightarrow> field list \<Rightarrow> question list \<Rightarrow> instruction list" where
  "buildForm rt respondentDetails questionList =
     (if length respondentDetails > 0
      then respondentBreak # concat (map respondentItem respondentDetails) @ [surveyBreak]
      else [])
     @ addQuestions rt None questionList"

subsection \<open>handleGenerateForm\<close>

definition createErrorResponse :: "string \<Rightarrow> response" where
  "createErrorResponse m = \<lparr> ok = False, message = m, stats = None, form = None \<rparr>"

text \<open>
  \<^verbatim>\<open>ensureSheetsExist\<close> runs first, so both sheets exist; the arguments are their data
  rows. Whatever the body throws is caught and answered with \<open>createErrorResponse\<close>.
\<close>

definition handleGenerateForm :: "js \<Rightarrow> bool \<Rightarrow> row list \<Rightarrow> row list \<Rightarrow> response" where
  "handleGenerateForm rt dryRun respondentRows questionRows =
     (case readRespondentDetails rt respondentRows of
        Inl e \<Rightarrow> createErrorResponse (''Failed to generate form: '' @ errorToString e)
      | Inr respondentDetails \<Rightarrow>
          (case readQuestionsWithValidation rt (Some questionRows) of
             Inl e \<Rightarrow> createErrorResponse (''Failed to generate form: '' @ errorToString e)
           | Inr questionsResult \<Rightarrow>
               if length (questions questionsResult) = 0
                  \<and> skippedCount (questionsResult.stats questionsResult) = 0
               then \<lparr> ok = False, message = ''No questions found in Questions sheet'',
                      stats = Some (questionsResult.stats questionsResult), form = None \<rparr>
               else if dryRun
               then \<lparr> ok = True, message = ''Dry run completed. Validation successful.'',
                      stats = Some (questionsResult.stats questionsResult), form = None \<rparr>
               else \<lparr> ok = True, message = ''Form created successfully'',
                      stats = Some (questionsResult.stats questionsResult),
                      form = Some (buildForm rt respondentDetails (questions questionsResult)) \<rparr>))"

subsection \<open>A concrete runtime for examples\<close>

text \<open>
  An implementation of the library functions on ASCII text and integer numerals, where
  it agrees with JavaScript. It is used to evaluate the examples only.
\<close>

definition asciiUpper :: "char \<Rightarrow> char" where
  "asciiUpper c =
     (case map_of (zip ''abcdefghijklmnopqrstuvwxyz'' ''ABCDEFGHIJKLMNOPQRSTUVWXYZ'') c of
        None \<Rightarrow> c | Some u \<Rightarrow> u)"

definition asciiSpace :: "char \<Rightarrow> bool" where
  "asciiSpace c = (c \<in> set [CHR 0x20, CHR 0x09, CHR 0x0A, CHR 0x0B, CHR 0x0C, CHR 0x0D])"

definition asciiTrim :: "string \<Rightarrow> string" where
  "asciiTrim s = rev (dropWhile asciiSpace (rev (dropWhile asciiSpace s)))"

fun digitValue :: "char \<Rightarrow> nat option" where
  "digitValue c = map_of (zip ''0123456789'' [0, 1, 2, 3, 4, 5, 6, 7, 8, 9]) c"

fun parseDigits :: "nat \<Rightarrow> string \<Rightarrow> nat option" where
  "parseDigits acc [] = Some acc"
| "parseDigits acc (c # cs) =
     (case digitValue c of None \<Rightarrow> None | Some d \<Rightarrow> parseDigits (10 * acc + d) cs)"

definition asciiParseFloat :: "string \<Rightarrow> real option" where
  "asciiParseFloat s =
     (case asciiTrim s of
        [] \<Rightarrow> None
      | c # cs \<Rightarrow>
          if c = CHR ''-'' then (if cs = [] then None else map_option (\<lambda>n. - real n) (parseDigits 0 cs))
          else map_option real (parseDigits 0 (c # cs)))"

fun natDigits :: "nat \<Rightarrow> string" where
  "natDigits n =
     (if n < 10 then [''0123456789'' ! n] else natDigits (n div 10) @ [''0123456789'' ! (n mod 10)])"

definition asciiNumberToString :: "real \<Rightarrow> string" where
  "asciiNumberToString x =
     (if x < 0 then CHR ''-'' # natDigits (nat \<lfloor>- x\<rfloor>) else natDigits (nat \<lfloor>x\<rfloor>))"

fun codeUnitCompare :: "string \<Rightarrow> string \<Rightarrow> int" where
  "codeUnitCompare [] [] = 0"
| "codeUnitCompare [] (y # ys) = - 1"
| "codeUnitCompare (x # xs) [] = 1"
| "codeUnitCompare (x # xs) (y # ys) =
     (if x = y then codeUnitCompare xs ys
      else if (of_char x :: nat) < of_char y then - 1 else 1)"

definition asciiJs :: js where
  "asciiJs =
     \<lparr> toUpperCase = map asciiUpper,
       trim = asciiTrim,
       numberToString = asciiNumberToString,
       parseFloat = asciiParseFloat,
       localeCompare = codeUnitCompare \<rparr>"

text \<open>
  The collation of \<^verbatim>\<open>localeCompare\<close> gives some characters no weight: in V8,
  \<^verbatim>\<open>'A\u0001'.localeCompare('A')\<close> is 0. A second runtime for the examples: its
  \<open>localeCompare\<close> skips the control character U+0001 and compares code units otherwise.
\<close>

definition ignoringCompare :: "string \<Rightarrow> string \<Rightarrow> int" where
  "ignoringCompare s t =
     codeUnitCompare (filter (\<lambda>c. c \<noteq> CHR 0x01) s) (filter (\<lambda>c. c \<noteq> CHR 0x01) t)"

definition collatingJs :: js where
  "collatingJs = asciiJs\<lparr> localeCompare := ignoringCompare \<rparr>"

subsection \<open>Notions of the specification\<close>

text \<open>
  The sort order in the specification's words: a blank section comes after every
  non-blank one, non-blank sections go by \<open>localeCompare\<close>, and within one section the
  numeric order ascends.
\<close>

definition sectionBefore :: "js \<Rightarrow> jsval \<Rightarrow> jsval \<Rightarrow> bool" where
  "sectionBefore rt s t =
     (s \<noteq> t \<and>
      (if s = JString '''' then False
       else if t = JString '''' then True
       else localeCompare rt (ToString rt s) (ToString rt t) < 0))"

definition questionLe :: "js \<Rightarrow> question \<Rightarrow> question \<Rightarrow> bool" where
  "questionLe rt a b =
     (if section a = section b then order a \<le> order b
      else sectionBefore rt (section a) (section b))"

text \<open>
  What the order of the specification needs of \<open>localeCompare\<close> on the sections \<open>S\<close> of
  a list: no two different sections compare equal, the sign turns with the arguments,
  and \<open>< 0\<close> is transitive.
\<close>

definition strictCompareOn :: "(string \<Rightarrow> string \<Rightarrow> int) \<Rightarrow> string set \<Rightarrow> bool" where
  "strictCompareOn lc S =
     ((\<forall>s\<in>S. \<forall>t\<in>S. s \<noteq> t \<longrightarrow> lc s t \<noteq> 0) \<and>
      (\<forall>s\<in>S. \<forall>t\<in>S. (lc s t < 0) = (0 < lc t s)) \<and>
      (\<forall>s\<in>S. \<forall>t\<in>S. \<forall>u\<in>S. lc s t < 0 \<and> lc t u < 0 \<longrightarrow> lc s u < 0))"

definition sectionStrings :: "question list \<Rightarrow> string set" where
  "sectionStrings qs = {s. JString s \<in> section ` set qs}"

text \<open>
  Stable insertion sort by a relation: each element, from left to right, goes behind
  the elements of the sorted front that are not greater.
\<close>

fun insertLe :: "('a \<Rightarrow> 'a \<Rightarrow> bool) \<Rightarrow> 'a \<Rightarrow> 'a list \<Rightarrow> 'a list" where
  "insertLe le x [] = [x]"
| "insertLe le x (y # ys) = (if le y x then y # insertLe le x ys else x # y # ys)"

definition sortLe :: "('a \<Rightarrow> 'a \<Rightarrow> bool) \<Rightarrow> 'a list \<Rightarrow> 'a list" where
  "sortLe le xs = foldl (\<lambda>sortedPart x. insertLe le x sortedPart) [] xs"

text \<open>
  A comparator \<open>cmp\<close> is the comparator of the total preorder \<open>le\<close> on the set \<open>A\<close>: it
  returns on \<open>A\<close>, and its result is negative exactly when the first argument is strictly
  before the second.
\<close>

definition comparesBy :: "('a \<Rightarrow> 'a \<Rightarrow> error + real) \<Rightarrow> ('a \<Rightarrow> 'a \<Rightarrow> bool) \<Rightarrow> 'a set \<Rightarrow> bool" where
  "comparesBy cmp le A =
     ((\<forall>a\<in>A. \<forall>b\<in>A. \<exists>c. cmp a b = Inr c \<and> (c < 0) = (\<not> le b a))
      \<and> (\<forall>a\<in>A. \<forall>b\<in>A. le a b \<or> le b a)
      \<and> (\<forall>a\<in>A. \<forall>b\<in>A. \<forall>c\<in>A. le a b \<and> le b c \<longrightarrow> le a c))"

definition fieldLe :: "field \<Rightarrow> field \<Rightarrow> bool" where
  "fieldLe a b = (order a \<le> order b)"

text \<open>A section value that makes the compiler consider a page break.\<close>

definition nonBlankSection :: "jsval \<Rightarrow> bool" where
  "nonBlankSection s = (truthy s \<and> s \<noteq> JString '''')"



text \<open>The item the specification expects of a respondent field of a known type.\<close>

definition knownFieldType :: "string \<Rightarrow> bool" where
  "knownFieldType t = (t = ''TEXT'' \<or> t = ''PARAGRAPH'' \<or> t = ''DROPDOWN'')"

definition fieldKind :: "string \<Rightarrow> itemKind" where
  "fieldKind t = (if t = ''TEXT'' then TEXT else if t = ''PARAGRAPH'' then PARAGRAPH else DROPDOWN)"

definition fieldItem :: "field \<Rightarrow> instruction" where
  "fieldItem f =
     Item (fieldKind (type f)) (fieldName f) (required f)
       (if type f = ''DROPDOWN'' then options f else [])"

text \<open>The distinct non-blank sections of a list of questions, counted.\<close>

definition distinctSections :: "question list \<Rightarrow> nat" where
  "distinctSections qs = card (set (filter nonBlankSection (map section qs)))"

text \<open>
  The section cells that the row loop adds to its set: those of the rows with a
  non-blank question text, whether the row is accepted or rejected afterwards.
\<close>

definition trackedSections :: "js \<Rightarrow> row list \<Rightarrow> jsval list" where
  "trackedSections rt rows =
     map (\<lambda>r. cell r ''Section'')
       (filter (\<lambda>r. \<not> isBlank rt (cell r ''QuestionText'') \<and> truthy (cell r ''Section'')) rows)"

subsection \<open>Example inputs\<close>

definition exampleQuestion :: "string \<Rightarrow> real \<Rightarrow> question" where
  "exampleQuestion s n =
     \<lparr> type = ''TEXT'', required = False, order = n, options = [],
       questionId = JString '''', section = JString s, questionText = ''Q'',
       goToSectionOnOption = JString '''' \<rparr>"

definition ageRow :: row where
  "ageRow = [''QuestionText'' \<mapsto> JString ''Age?'', ''Type'' \<mapsto> JString ''TEXT'',
             ''Required'' \<mapsto> JBoolean True]"

definition bogusRow :: row where
  "bogusRow = [''QuestionText'' \<mapsto> JString ''Q1'', ''Type'' \<mapsto> JString ''BOGUS'',
               ''Section'' \<mapsto> JString ''General'']"

definition checkboxRow :: row where
  "checkboxRow = [''QuestionText'' \<mapsto> JString ''Pick'', ''Type'' \<mapsto> JString ''CHECKBOX'']"

definition numberedRow :: "real \<Rightarrow> string \<Rightarrow> row" where
  "numberedRow n t = [''Section'' \<mapsto> JNumber n, ''QuestionText'' \<mapsto> JString t,
                      ''Type'' \<mapsto> JString ''TEXT'']"

definition sectionRow :: "string \<Rightarrow> string \<Rightarrow> row" where
  "sectionRow s t = [''Section'' \<mapsto> JString s, ''QuestionText'' \<mapsto> JString t,
                     ''Type'' \<mapsto> JString ''TEXT'']"

definition numberedQuestion :: "real \<Rightarrow> string \<Rightarrow> question" where
  "numberedQuestion n t =
     \<lparr> type = ''TEXT'', required = False, order = 0, options = [],
       questionId = JString '''', section = JNumber n, questionText = t,
       goToSectionOnOption = JString '''' \<rparr>"

definition sectionQuestion :: "string \<Rightarrow> string \<Rightarrow> question" where
  "sectionQuestion s t =
     \<lparr> type = ''TEXT'', required = False, order = 0, options = [],
       questionId = JString '''', section = JString s, questionText = t,
       goToSectionOnOption = JString '''' \<rparr>"

definition mailRow :: row where
  "mailRow = [''FieldName'' \<mapsto> JString ''Mail'', ''Type'' \<mapsto> JString ''EMAIL'']"

definition mailField :: field where
  "mailField = \<lparr> type = ''EMAIL'', required = False, order = 0, options = [], fieldName = ''Mail'' \<rparr>"

definition nameRow :: row where
  "nameRow = [''FieldName'' \<mapsto> JString ''Name'', ''Type'' \<mapsto> JString ''text'',
              ''Required'' \<mapsto> JString ''TRUE'', ''Order'' \<mapsto> JString ''1'']"

definition nameField :: field where
  "nameField = \<lparr> type = ''TEXT'', required = True, order = 1, options = [], fieldName = ''Name'' \<rparr>"

section \<open>Properties\<close>

subsection \<open>The sort\<close>

lemma arraySort_Nil [simp]: "arraySort cmp [] = Inr []"
  by (simp add: arraySort_def)

lemma arraySort_single [simp]: "arraySort cmp [x] = Inr [x]"
  by (simp add: arraySort_def)

lemma comparesBy_cmp:
  "comparesBy cmp le A \<Longrightarrow> a \<in> A \<Longrightarrow> b \<in> A \<Longrightarrow>
     \<exists>c. cmp a b = Inr c \<and> (c < 0) = (\<not> le b a)"
  unfolding comparesBy_def by blast

lemma comparesBy_total:
  "comparesBy cmp le A \<Longrightarrow> a \<in> A \<Longrightarrow> b \<in> A \<Longrightarrow> \<not> le a b \<Longrightarrow> le b a"
  unfolding comparesBy_def by blast

lemma comparesBy_refl:
  "comparesBy cmp le A \<Longrightarrow> a \<in> A \<Longrightarrow> le a a"
  unfolding comparesBy_def by blast

lemma comparesBy_trans:
  "comparesBy cmp le A \<Longrightarrow> a \<in> A \<Longrightarrow> b \<in> A \<Longrightarrow> c \<in> A \<Longrightarrow> le a b \<Longrightarrow> le b c \<Longrightarrow> le a c"
  unfolding comparesBy_def by blast

lemma set_insertLe: "set (insertLe le x ys) = insert x (set ys)"
  by (induction ys) auto

lemma mset_insertLe: "mset (insertLe le x ys) = add_mset x (mset ys)"
  by (induction ys) auto

lemma sortLe_snoc: "sortLe le (xs @ [x]) = insertLe le x (sortLe le xs)"
  by (simp add: sortLe_def)

lemma sortLe_Nil: "sortLe le [] = []"
  by (simp add: sortLe_def)

lemma set_sortLe: "set (sortLe le xs) = set xs"
  by (induction xs rule: rev_induct) (auto simp: sortLe_Nil sortLe_snoc set_insertLe)

lemma mset_sortLe: "mset (sortLe le xs) = mset xs"
  by (induction xs rule: rev_induct) (auto simp: sortLe_Nil sortLe_snoc mset_insertLe)

lemma length_sortLe: "length (sortLe le xs) = length xs"
  using mset_sortLe [of le xs] by (metis size_mset)

lemma insertLe_takeWhile:
  "insertLe le x ys = takeWhile (\<lambda>e. le e x) ys @ x # dropWhile (\<lambda>e. le e x) ys"
  by (induction ys) auto

lemma sorted_wrt_insertLe:
  assumes cb: "comparesBy cmp le A"
      and x: "x \<in> A" and ys: "set ys \<subseteq> A" and srt: "sorted_wrt le ys"
  shows "sorted_wrt le (insertLe le x ys)"
  using ys srt
proof (induction ys)
  case Nil
  then show ?case by simp
next
  case (Cons y ys)
  show ?case
  proof (cases "le y x")
    case True
    with Cons show ?thesis by (auto simp: set_insertLe)
  next
    case False
    then have xy: "le x y" using comparesBy_total [OF cb, of y x] x Cons.prems by auto
    have "le x z" if "z \<in> set ys" for z
      using comparesBy_trans [OF cb, of x y z] x xy Cons.prems that by auto
    with False xy Cons.prems show ?thesis by auto
  qed
qed

lemma sorted_wrt_sortLe:
  assumes cb: "comparesBy cmp le A" and xs: "set xs \<subseteq> A"
  shows "sorted_wrt le (sortLe le xs)"
  using xs
proof (induction xs rule: rev_induct)
  case Nil
  then show ?case by (simp add: sortLe_Nil)
next
  case (snoc x xs)
  then have "sorted_wrt le (sortLe le xs)" by simp
  moreover have "x \<in> A" "set (sortLe le xs) \<subseteq> A"
    using snoc.prems by (auto simp: set_sortLe)
  ultimately show ?case
    using sorted_wrt_insertLe [OF cb] by (simp add: sortLe_snoc)
qed

lemma sorted_wrt_nth_le:
  assumes cb: "comparesBy cmp le A" and ws: "set ws \<subseteq> A" and srt: "sorted_wrt le ws"
      and "i \<le> j" "j < length ws"
  shows "le (ws ! i) (ws ! j)"
proof (cases "i = j")
  case True
  moreover have "ws ! j \<in> A" using ws assms(5) nth_mem by blast
  ultimately show ?thesis using comparesBy_refl [OF cb] by simp
next
  case False
  then show ?thesis using srt assms(4,5) by (simp add: sorted_wrt_iff_nth_less)
qed

lemma findInsertionPoint_sorted:
  assumes "comparesBy cmp le A" and "set ws \<subseteq> A" and "pivot \<in> A"
      and "sorted_wrt le ws"
      and "left \<le> right" "right \<le> length ws"
      and "\<forall>i<left. le (ws ! i) pivot"
      and "\<forall>i. right \<le> i \<and> i < length ws \<longrightarrow> \<not> le (ws ! i) pivot"
  shows "findInsertionPoint cmp pivot ws left right
           = Inr (length (takeWhile (\<lambda>e. le e pivot) ws))"
  using assms
proof (induction cmp pivot ws left right rule: findInsertionPoint.induct)
  case (1 cmp pivot ws left right)
  note cb = "1.prems"(1) and ws = "1.prems"(2) and pv = "1.prems"(3) and srt = "1.prems"(4)
  show ?case
  proof (cases "left < right")
    case False
    then have eq: "left = right" using "1.prems"(5) by simp
    have "takeWhile (\<lambda>e. le e pivot) ws = take left ws"
      using "1.prems"(6-8) eq by (intro takeWhile_eq_take_P_nth) auto
    moreover have "length (take left ws) = left" using "1.prems"(6) eq by simp
    ultimately show ?thesis
      using False by (subst findInsertionPoint.simps) simp
  next
    case True
    let ?mid = "left + (right - left) div 2"
    have mid: "left \<le> ?mid" "?mid < right" "?mid < length ws"
      using True "1.prems"(6) by auto
    then have midA: "ws ! ?mid \<in> A" using ws nth_mem by blast
    obtain c where c: "cmp pivot (ws ! ?mid) = Inr c" "(c < 0) = (\<not> le (ws ! ?mid) pivot)"
      using comparesBy_cmp [OF cb pv midA] by blast
    show ?thesis
    proof (cases "c < 0")
      case lt: True
      have above: "\<forall>i. ?mid \<le> i \<and> i < length ws \<longrightarrow> \<not> le (ws ! i) pivot"
      proof (intro allI impI notI)
        fix i assume i: "?mid \<le> i \<and> i < length ws" and le: "le (ws ! i) pivot"
        have mi: "le (ws ! ?mid) (ws ! i)"
          using i by (intro sorted_wrt_nth_le [OF cb ws srt]) simp_all
        have iA: "ws ! i \<in> A" using i ws nth_mem by blast
        have "le (ws ! ?mid) pivot"
          by (rule comparesBy_trans [OF cb midA iA pv mi le])
        with c(2) lt show False by simp
      qed
      have "left \<le> ?mid" "?mid \<le> length ws" using mid by simp_all
      then have "findInsertionPoint cmp pivot ws left ?mid
                   = Inr (length (takeWhile (\<lambda>e. le e pivot) ws))"
        using "1.prems"(7) above by (intro "1.IH"(1) [OF True c(1) lt cb ws pv srt])
      then show ?thesis
        using True c lt by (subst findInsertionPoint.simps) simp
    next
      case ge: False
      then have lemid: "le (ws ! ?mid) pivot" using c by simp
      have below: "\<forall>i<?mid + 1. le (ws ! i) pivot"
      proof (intro allI impI)
        fix i assume "i < ?mid + 1"
        then have i: "i \<le> ?mid" by linarith
        then have len: "i < length ws" using mid(3) by linarith
        have im: "le (ws ! i) (ws ! ?mid)"
          using i mid(3) by (rule sorted_wrt_nth_le [OF cb ws srt])
        have iA: "ws ! i \<in> A" using len ws nth_mem by blast
        show "le (ws ! i) pivot"
          by (rule comparesBy_trans [OF cb iA midA pv im lemid])
      qed
      have "?mid + 1 \<le> right" "right \<le> length ws" using mid "1.prems"(6) by simp_all
      then have "findInsertionPoint cmp pivot ws (?mid + 1) right
                   = Inr (length (takeWhile (\<lambda>e. le e pivot) ws))"
        using below "1.prems"(8) by (intro "1.IH"(2) [OF True c(1) ge cb ws pv srt])
      then show ?thesis
        using True c ge by (subst findInsertionPoint.simps) simp
    qed
  qed
qed

lemma binaryInsertionSort_foldl:
  assumes cb: "comparesBy cmp le A"
  shows "set sortedPart \<subseteq> A \<Longrightarrow> set rest \<subseteq> A \<Longrightarrow> sorted_wrt le sortedPart \<Longrightarrow>
           binaryInsertionSort cmp sortedPart rest
             = Inr (foldl (\<lambda>sortedPart x. insertLe le x sortedPart) sortedPart rest)"
proof (induction rest arbitrary: sortedPart)
  case Nil
  then show ?case by simp
next
  case (Cons pivot rest)
  have pv: "pivot \<in> A" using Cons.prems by simp
  have "findInsertionPoint cmp pivot sortedPart 0 (length sortedPart)
          = Inr (length (takeWhile (\<lambda>e. le e pivot) sortedPart))"
    using Cons.prems pv by (intro findInsertionPoint_sorted [OF cb]) auto
  moreover have "take (length (takeWhile (\<lambda>e. le e pivot) sortedPart)) sortedPart
                   @ pivot # drop (length (takeWhile (\<lambda>e. le e pivot) sortedPart)) sortedPart
                 = insertLe le pivot sortedPart"
    by (simp add: insertLe_takeWhile dropWhile_eq_drop takeWhile_eq_take [symmetric])
  moreover have "binaryInsertionSort cmp (insertLe le pivot sortedPart) rest
          = Inr (foldl (\<lambda>sortedPart x. insertLe le x sortedPart) (insertLe le pivot sortedPart) rest)"
  proof (rule Cons.IH)
    show "set (insertLe le pivot sortedPart) \<subseteq> A"
      using Cons.prems pv by (simp add: set_insertLe)
    show "set rest \<subseteq> A" using Cons.prems by simp
    show "sorted_wrt le (insertLe le pivot sortedPart)"
      using Cons.prems by (intro sorted_wrt_insertLe [OF cb pv]) simp_all
  qed
  ultimately show ?case by simp
qed

lemma countRun_run:
  assumes cb: "comparesBy cmp le A"
  shows "previous \<in> A \<Longrightarrow> set rest \<subseteq> A \<Longrightarrow>
     \<exists>n. countRun cmp isDescending previous rest = Inr n \<and> n \<le> length rest
       \<and> successively (\<lambda>p q. if isDescending then \<not> le p q else le p q)
            (previous # take n rest)"
proof (induction rest arbitrary: previous)
  case Nil
  then show ?case by simp
next
  case (Cons current rest)
  have cur: "current \<in> A" using Cons.prems by simp
  obtain c where c: "cmp current previous = Inr c" "(c < 0) = (\<not> le previous current)"
    using comparesBy_cmp [OF cb cur Cons.prems(1)] by blast
  show ?case
  proof (cases "if isDescending then c \<ge> 0 else c < 0")
    case True
    then show ?thesis using c by (intro exI [of _ 0]) (auto split: if_splits)
  next
    case False
    obtain n where n: "countRun cmp isDescending current rest = Inr n" "n \<le> length rest"
        "successively (\<lambda>p q. if isDescending then \<not> le p q else le p q) (current # take n rest)"
      using Cons.IH [OF cur] Cons.prems(2) by auto
    have step: "if isDescending then \<not> le previous current else le previous current"
      using False c(2) by (auto split: if_splits)
    show ?thesis
      using False c(1) n step by (intro exI [of _ "Suc n"]) simp
  qed
qed

lemma insertLe_all_le: "\<forall>e\<in>set ys. le e x \<Longrightarrow> insertLe le x ys = ys @ [x]"
  by (induction ys) auto

lemma sortLe_sorted: "sorted_wrt le xs \<Longrightarrow> sortLe le xs = xs"
proof (induction xs rule: rev_induct)
  case Nil
  then show ?case by (simp add: sortLe_Nil)
next
  case (snoc x xs)
  then have "sortLe le xs = xs" and "\<forall>e\<in>set xs. le e x"
    by (simp_all add: sorted_wrt_append)
  then show ?case by (simp add: sortLe_snoc insertLe_all_le)
qed

lemma successively_sorted_wrt:
  assumes cb: "comparesBy cmp le A"
  shows "set xs \<subseteq> A \<Longrightarrow> successively le xs \<Longrightarrow> sorted_wrt le xs"
proof (induction xs rule: induct_list012)
  case 1
  then show ?case by simp
next
  case (2 x)
  then show ?case by simp
next
  case (3 x y zs)
  then have srt: "sorted_wrt le (y # zs)" and xy: "le x y" by simp_all
  have "le x z" if "z \<in> set zs" for z
  proof -
    have "le y z" using srt that by simp
    then show ?thesis
      using comparesBy_trans [OF cb, of x y z] xy "3.prems"(1) that by auto
  qed
  with srt xy show ?case by auto
qed

lemma sortLe_descending:
  "successively (\<lambda>p q. \<not> le p q) xs \<Longrightarrow> sortLe le xs = rev xs"
proof (induction xs rule: rev_induct)
  case Nil
  then show ?case by (simp add: sortLe_Nil)
next
  case (snoc x xs)
  note prems = snoc.prems
  have ih: "sortLe le xs = rev xs"
    using snoc by (simp add: successively_append_iff)
  have step: "sortLe le (xs @ [x]) = insertLe le x (rev xs)"
    using ih by (simp only: sortLe_snoc)
  show ?case
  proof (cases xs rule: rev_cases)
    case Nil
    then show ?thesis using step by simp
  next
    case (snoc ys y)
    then have "\<not> le y x" using prems by (simp add: successively_append_iff)
    then show ?thesis using step snoc by simp
  qed
qed

lemma arraySort_sortLe:
  assumes cb: "comparesBy cmp le A" and xs: "set xs \<subseteq> A"
  shows "arraySort cmp xs = Inr (sortLe le xs)"
proof (cases xs rule: remdups_adj.cases)
  case 1
  then show ?thesis by (simp add: arraySort_def sortLe_Nil)
next
  case (2 x)
  then show ?thesis by (simp add: arraySort_def sortLe_def)
next
  case (3 elementHigh elementLow rest)
  have inA: "elementHigh \<in> A" "elementLow \<in> A" "set rest \<subseteq> A"
    using xs 3 by simp_all
  obtain c where c: "cmp elementLow elementHigh = Inr c"
      "(c < 0) = (\<not> le elementHigh elementLow)"
    using comparesBy_cmp [OF cb inA(2) inA(1)] by blast
  obtain n where n: "countRun cmp (c < 0) elementLow rest = Inr n" "n \<le> length rest"
      "successively (\<lambda>p q. if c < 0 then \<not> le p q else le p q) (elementLow # take n rest)"
    using countRun_run [OF cb inA(2) inA(3), of "c < 0"] by blast
  let ?run = "elementHigh # elementLow # take n rest"
  let ?made = "if c < 0 then rev ?run else ?run"
  have runA: "set ?run \<subseteq> A"
    using inA set_take_subset [of n rest] by auto
  have made: "?made = sortLe le ?run"
  proof (cases "c < 0")
    case True
    then have "successively (\<lambda>p q. \<not> le p q) ?run" using n(3) c(2) by simp
    then show ?thesis using True by (simp only: sortLe_descending if_True)
  next
    case False
    then have "successively le ?run" using n(3) c(2) by simp
    then have "sorted_wrt le ?run" using runA by (intro successively_sorted_wrt [OF cb])
    then show ?thesis using False by (simp only: sortLe_sorted if_False)
  qed
  have "binaryInsertionSort cmp (sortLe le ?run) (drop n rest)
          = Inr (foldl (\<lambda>sortedPart x. insertLe le x sortedPart) (sortLe le ?run) (drop n rest))"
  proof (rule binaryInsertionSort_foldl [OF cb])
    show "set (sortLe le ?run) \<subseteq> A" using runA by (simp only: set_sortLe)
    show "set (drop n rest) \<subseteq> A" using inA(3) set_drop_subset [of n rest] by blast
    show "sorted_wrt le (sortLe le ?run)" using runA by (rule sorted_wrt_sortLe [OF cb])
  qed
  also have "foldl (\<lambda>sortedPart x. insertLe le x sortedPart) (sortLe le ?run) (drop n rest)
               = sortLe le (?run @ drop n rest)"
    by (simp only: sortLe_def foldl_append)
  also have "?run @ drop n rest = xs" using 3 by simp
  finally have "binaryInsertionSort cmp ?made (drop n rest) = Inr (sortLe le xs)"
    using made by simp
  then show ?thesis
    using 3 c(1) n(1) by (simp add: arraySort_def)
qed

subsection \<open>A comparator that returns\<close>

lemma findInsertionPoint_returns:
  assumes "\<forall>a\<in>A. \<forall>b\<in>A. \<exists>c. cmp a b = Inr c"
      and "pivot \<in> A" and "set ws \<subseteq> A" and "right \<le> length ws"
  shows "\<exists>i. findInsertionPoint cmp pivot ws left right = Inr i"
  using assms
proof (induction cmp pivot ws left right rule: findInsertionPoint.induct)
  case (1 cmp pivot ws left right)
  note ret = "1.prems"(1) and pv = "1.prems"(2) and ws = "1.prems"(3)
  show ?case
  proof (cases "left < right")
    case False
    then show ?thesis by (subst findInsertionPoint.simps) simp
  next
    case True
    let ?mid = "left + (right - left) div 2"
    have mid: "?mid < right" "?mid < length ws" "?mid \<le> length ws"
      using True "1.prems"(4) by auto
    then have midA: "ws ! ?mid \<in> A" using ws nth_mem by blast
    obtain c where c: "cmp pivot (ws ! ?mid) = Inr c"
      using ret pv midA by blast
    show ?thesis
    proof (cases "c < 0")
      case lt: True
      have "\<exists>i. findInsertionPoint cmp pivot ws left ?mid = Inr i"
        using mid(3) by (rule "1.IH"(1) [OF True c lt ret pv ws])
      then show ?thesis
        using True c lt by (subst findInsertionPoint.simps) simp
    next
      case ge: False
      have "\<exists>i. findInsertionPoint cmp pivot ws (?mid + 1) right = Inr i"
        using "1.prems"(4) by (rule "1.IH"(2) [OF True c ge ret pv ws])
      then show ?thesis
        using True c ge by (subst findInsertionPoint.simps) simp
    qed
  qed
qed

lemma binaryInsertionSort_returns:
  assumes ret: "\<forall>a\<in>A. \<forall>b\<in>A. \<exists>c. cmp a b = Inr c"
  shows "set sortedPart \<subseteq> A \<Longrightarrow> set rest \<subseteq> A \<Longrightarrow>
           \<exists>ys. binaryInsertionSort cmp sortedPart rest = Inr ys"
proof (induction rest arbitrary: sortedPart)
  case Nil
  then show ?case by simp
next
  case (Cons pivot rest)
  have pv: "pivot \<in> A" using Cons.prems by simp
  obtain i where i: "findInsertionPoint cmp pivot sortedPart 0 (length sortedPart) = Inr i"
    using findInsertionPoint_returns [OF ret pv Cons.prems(1) order_refl] by blast
  have "set (take i sortedPart @ pivot # drop i sortedPart) \<subseteq> A"
    using Cons.prems(1) pv set_take_subset [of i sortedPart] set_drop_subset [of i sortedPart]
    by auto
  then have "\<exists>ys. binaryInsertionSort cmp (take i sortedPart @ pivot # drop i sortedPart) rest
                = Inr ys"
    using Cons.prems(2) by (intro Cons.IH) simp_all
  then show ?case using i by simp
qed

lemma countRun_returns:
  assumes ret: "\<forall>a\<in>A. \<forall>b\<in>A. \<exists>c. cmp a b = Inr c"
  shows "previous \<in> A \<Longrightarrow> set rest \<subseteq> A \<Longrightarrow>
           \<exists>n. countRun cmp isDescending previous rest = Inr n"
proof (induction rest arbitrary: previous)
  case Nil
  then show ?case by simp
next
  case (Cons current rest)
  have cur: "current \<in> A" using Cons.prems by simp
  obtain c where c: "cmp current previous = Inr c"
    using ret cur Cons.prems(1) by blast
  obtain n where "countRun cmp isDescending current rest = Inr n"
    using Cons.IH [OF cur] Cons.prems(2) by auto
  then show ?case using c by simp
qed

text \<open>The sort returns when the comparator returns on the elements of the array.\<close>

lemma arraySort_returns:
  assumes ret: "\<forall>a\<in>A. \<forall>b\<in>A. \<exists>c. cmp a b = Inr c" and xs: "set xs \<subseteq> A"
  shows "\<exists>ys. arraySort cmp xs = Inr ys"
proof (cases xs rule: remdups_adj.cases)
  case 1
  then show ?thesis by simp
next
  case (2 x)
  then show ?thesis by simp
next
  case (3 elementHigh elementLow rest)
  have inA: "elementHigh \<in> A" "elementLow \<in> A" "set rest \<subseteq> A"
    using xs 3 by simp_all
  obtain c where c: "cmp elementLow elementHigh = Inr c"
    using ret inA by blast
  obtain n where n: "countRun cmp (c < 0) elementLow rest = Inr n"
    using countRun_returns [OF ret inA(2) inA(3)] by blast
  let ?run = "if c < 0 then rev (elementHigh # elementLow # take n rest)
              else elementHigh # elementLow # take n rest"
  have "set ?run \<subseteq> A"
    using inA set_take_subset [of n rest] by auto
  moreover have "set (drop n rest) \<subseteq> A"
    using inA(3) set_drop_subset [of n rest] by blast
  ultimately obtain ys where "binaryInsertionSort cmp ?run (drop n rest) = Inr ys"
    using binaryInsertionSort_returns [OF ret] by blast
  then show ?thesis
    using 3 c n by (simp add: arraySort_def)
qed

subsection \<open>The sort of the respondent fields\<close>

lemma comparesBy_compareFields: "comparesBy compareFields fieldLe UNIV"
  by (auto simp: comparesBy_def compareFields_def fieldLe_def)

lemma readRespondentDetails_sortLe:
  "readRespondentDetails rt rows = Inr (sortLe fieldLe (concat (map (respondentRow rt) rows)))"
  unfolding readRespondentDetails_def
  by (rule arraySort_sortLe [OF comparesBy_compareFields]) simp

subsection \<open>The sort of the questions\<close>

lemma compareQuestions_returns:
  "isString (section a) \<Longrightarrow> \<exists>c. compareQuestions rt a b = Inr c"
  by (cases "section a") (auto simp: compareQuestions_def)

lemma sectionStrings_mem:
  "q \<in> set qs \<Longrightarrow> section q = JString s \<Longrightarrow> s \<in> sectionStrings qs"
  by (force simp: sectionStrings_def)

lemma strictCompareOn_ne:
  "strictCompareOn lc S \<Longrightarrow> s \<in> S \<Longrightarrow> t \<in> S \<Longrightarrow> s \<noteq> t \<Longrightarrow> lc s t \<noteq> 0"
  by (simp add: strictCompareOn_def)

lemma strictCompareOn_turn:
  "strictCompareOn lc S \<Longrightarrow> s \<in> S \<Longrightarrow> t \<in> S \<Longrightarrow> (lc s t < 0) = (0 < lc t s)"
  by (simp add: strictCompareOn_def)

lemma strictCompareOn_trans:
  "strictCompareOn lc S \<Longrightarrow> s \<in> S \<Longrightarrow> t \<in> S \<Longrightarrow> u \<in> S \<Longrightarrow>
     lc s t < 0 \<Longrightarrow> lc t u < 0 \<Longrightarrow> lc s u < 0"
  unfolding strictCompareOn_def by blast

lemma compareQuestions_questionLe:
  assumes lc: "strictCompareOn (localeCompare rt) S"
      and a: "section a = JString s" "s \<in> S" and b: "section b = JString t" "t \<in> S"
  shows "\<exists>c. compareQuestions rt a b = Inr c \<and> (c < 0) = (\<not> questionLe rt b a)"
proof (cases "s = t")
  case True
  then show ?thesis
    using a(1) b(1) by (simp add: compareQuestions_def questionLe_def not_le)
next
  case False
  have ne: "localeCompare rt t s \<noteq> 0"
    using strictCompareOn_ne [OF lc b(2) a(2)] False by simp
  have turn: "(localeCompare rt s t < 0) = (0 < localeCompare rt t s)"
    by (rule strictCompareOn_turn [OF lc a(2) b(2)])
  have sign: "(localeCompare rt s t < 0) = (\<not> localeCompare rt t s < 0)"
    using ne turn by linarith
  show ?thesis
  proof (cases "s = '''' \<or> t = ''''")
    case True
    then show ?thesis
      using a(1) b(1) False
      by (auto simp: compareQuestions_def questionLe_def sectionBefore_def)
  next
    case blank: False
    then have "compareQuestions rt a b = Inr (real_of_int (localeCompare rt s t))"
      using a(1) b(1) False by (simp add: compareQuestions_def)
    moreover have "questionLe rt b a = (localeCompare rt t s < 0)"
      using a(1) b(1) False blank by (auto simp: questionLe_def sectionBefore_def)
    ultimately show ?thesis using sign by simp
  qed
qed

lemma questionLe_total:
  assumes lc: "strictCompareOn (localeCompare rt) S"
      and a: "section a = JString s" "s \<in> S" and b: "section b = JString t" "t \<in> S"
      and nle: "\<not> questionLe rt a b"
  shows "questionLe rt b a"
proof (cases "s = t")
  case True
  then show ?thesis
    using a(1) b(1) nle by (simp add: questionLe_def)
next
  case False
  have ne: "localeCompare rt s t \<noteq> 0"
    using strictCompareOn_ne [OF lc a(2) b(2)] False by simp
  have turn: "(localeCompare rt t s < 0) = (0 < localeCompare rt s t)"
    by (rule strictCompareOn_turn [OF lc b(2) a(2)])
  have sign: "localeCompare rt s t < 0 \<or> localeCompare rt t s < 0"
    using ne turn by linarith
  show ?thesis
    using a(1) b(1) nle False sign
    by (auto simp: questionLe_def sectionBefore_def split: if_splits)
qed

lemma questionLe_trans:
  assumes lc: "strictCompareOn (localeCompare rt) S"
      and a: "section a = JString s" "s \<in> S" and b: "section b = JString t" "t \<in> S"
      and c: "section c = JString u" "u \<in> S"
      and ab: "questionLe rt a b" and bc: "questionLe rt b c"
  shows "questionLe rt a c"
proof -
  have tr: "localeCompare rt s t < 0 \<Longrightarrow> localeCompare rt t u < 0 \<Longrightarrow> localeCompare rt s u < 0"
    by (rule strictCompareOn_trans [OF lc a(2) b(2) c(2)])
  have "(localeCompare rt s s < 0) = (0 < localeCompare rt s s)"
    by (rule strictCompareOn_turn [OF lc a(2) a(2)])
  then have irr: "\<not> localeCompare rt s s < 0" by linarith
  show ?thesis
    using a(1) b(1) c(1) ab bc tr irr
    by (auto simp: questionLe_def sectionBefore_def split: if_splits)
qed

lemma comparesBy_compareQuestions:
  assumes str: "\<forall>q\<in>set qs. isString (section q)"
      and lc: "strictCompareOn (localeCompare rt) (sectionStrings qs)"
  shows "comparesBy (compareQuestions rt) (questionLe rt) (set qs)"
proof -
  have sec: "\<exists>s. section q = JString s \<and> s \<in> sectionStrings qs" if "q \<in> set qs" for q
  proof -
    have "isString (section q)" using str that by blast
    then obtain s where s: "section q = JString s"
      by (cases "section q") auto
    have "s \<in> sectionStrings qs" using that s by (rule sectionStrings_mem)
    with s show ?thesis by blast
  qed
  show ?thesis
    unfolding comparesBy_def
  proof (intro conjI ballI impI)
    fix a b assume a: "a \<in> set qs" and b: "b \<in> set qs"
    from sec [OF a] obtain s where s: "section a = JString s" "s \<in> sectionStrings qs"
      by blast
    from sec [OF b] obtain t where t: "section b = JString t" "t \<in> sectionStrings qs"
      by blast
    show "\<exists>c. compareQuestions rt a b = Inr c \<and> (c < 0) = (\<not> questionLe rt b a)"
      by (rule compareQuestions_questionLe [OF lc s t])
  next
    fix a b assume a: "a \<in> set qs" and b: "b \<in> set qs"
    from sec [OF a] obtain s where s: "section a = JString s" "s \<in> sectionStrings qs"
      by blast
    from sec [OF b] obtain t where t: "section b = JString t" "t \<in> sectionStrings qs"
      by blast
    show "questionLe rt a b \<or> questionLe rt b a"
    proof (cases "questionLe rt a b")
      case True
      then show ?thesis by simp
    next
      case False
      then have "questionLe rt b a" by (rule questionLe_total [OF lc s t])
      then show ?thesis by simp
    qed
  next
    fix a b c assume a: "a \<in> set qs" and b: "b \<in> set qs" and c: "c \<in> set qs"
      and le: "questionLe rt a b \<and> questionLe rt b c"
    from sec [OF a] obtain s where s: "section a = JString s" "s \<in> sectionStrings qs"
      by blast
    from sec [OF b] obtain t where t: "section b = JString t" "t \<in> sectionStrings qs"
      by blast
    from sec [OF c] obtain u where u: "section c = JString u" "u \<in> sectionStrings qs"
      by blast
    from le have "questionLe rt a b" "questionLe rt b c" by simp_all
    then show "questionLe rt a c"
      by (rule questionLe_trans [OF lc s t u])
  qed
qed

lemma codeUnitCompare_eq: "(codeUnitCompare s t = 0) = (s = t)"
  by (induction s t rule: codeUnitCompare.induct) auto

lemma codeUnitCompare_less: "(codeUnitCompare s t < 0) = (0 < codeUnitCompare t s)"
  by (induction s t rule: codeUnitCompare.induct) (auto simp: not_less order_le_less)

lemma codeUnitCompare_trans:
  "codeUnitCompare s t < 0 \<Longrightarrow> codeUnitCompare t u < 0 \<Longrightarrow> codeUnitCompare s u < 0"
proof (induction s t arbitrary: u rule: codeUnitCompare.induct)
  case 1
  then show ?case by simp
next
  case (2 y ys)
  then show ?case by (cases u) (auto split: if_splits)
next
  case (3 x xs)
  then show ?case by simp
next
  case (4 x xs y ys)
  then show ?case by (cases u) (auto split: if_splits)
qed

lemma strictCompareOn_codeUnitCompare: "strictCompareOn codeUnitCompare S"
  unfolding strictCompareOn_def
proof (intro conjI ballI impI)
  show "codeUnitCompare s t \<noteq> 0" if "s \<noteq> t" for s t
    using that by (simp add: codeUnitCompare_eq)
  show "(codeUnitCompare s t < 0) = (0 < codeUnitCompare t s)" for s t
    by (rule codeUnitCompare_less)
  show "codeUnitCompare s u < 0"
    if "codeUnitCompare s t < 0 \<and> codeUnitCompare t u < 0" for s t u
    using that codeUnitCompare_trans [of s t u] by simp
qed

lemma localeCompare_asciiJs: "localeCompare asciiJs = codeUnitCompare"
  by (simp add: asciiJs_def)

subsection \<open>Stability\<close>

lemma dropWhile_sorted_greater:
  assumes cb: "comparesBy cmp le A" and x: "x \<in> A"
  shows "set ys \<subseteq> A \<Longrightarrow> sorted_wrt le ys \<Longrightarrow>
           \<forall>z\<in>set (dropWhile (\<lambda>e. le e x) ys). \<not> le z x"
proof (induction ys)
  case Nil
  then show ?case by simp
next
  case (Cons y ys)
  show ?case
  proof (cases "le y x")
    case True
    then have eq: "dropWhile (\<lambda>e. le e x) (y # ys) = dropWhile (\<lambda>e. le e x) ys"
      by simp
    have "\<forall>z\<in>set (dropWhile (\<lambda>e. le e x) ys). \<not> le z x"
    proof (rule Cons.IH)
      show "set ys \<subseteq> A" using Cons.prems(1) by simp
      show "sorted_wrt le ys" using Cons.prems(2) by simp
    qed
    then show ?thesis unfolding eq .
  next
    case False
    then have eq: "dropWhile (\<lambda>e. le e x) (y # ys) = y # ys"
      by simp
    have "\<not> le z x" if "z \<in> set ys" for z
    proof
      assume zx: "le z x"
      have yz: "le y z" using Cons.prems(2) that by simp
      have yA: "y \<in> A" and zA: "z \<in> A" using Cons.prems(1) that by auto
      have "le y x" by (rule comparesBy_trans [OF cb yA zA x yz zx])
      with False show False by simp
    qed
    with False show ?thesis unfolding eq by simp
  qed
qed

lemma filter_insertLe_other:
  "\<not> P x \<Longrightarrow> filter P (insertLe le x ys) = filter P ys"
  by (induction ys) auto

lemma filter_insertLe_same:
  assumes cb: "comparesBy cmp le A" and x: "x \<in> A" and ys: "set ys \<subseteq> A"
      and srt: "sorted_wrt le ys" and px: "P x" and le: "\<forall>y\<in>set ys. P y \<longrightarrow> le y x"
  shows "filter P (insertLe le x ys) = filter P ys @ [x]"
proof -
  let ?head = "takeWhile (\<lambda>e. le e x) ys" and ?tail = "dropWhile (\<lambda>e. le e x) ys"
  have "\<not> P z" if "z \<in> set ?tail" for z
  proof
    assume "P z"
    moreover have "z \<in> set ys" using that by (rule set_dropWhileD)
    ultimately have "le z x" using le by blast
    moreover have "\<not> le z x" using dropWhile_sorted_greater [OF cb x ys srt] that by blast
    ultimately show False by simp
  qed
  then have none: "filter P ?tail = []"
    by (simp add: filter_empty_conv)
  have "filter P (?head @ ?tail) = filter P ys" by simp
  then have front: "filter P ?head = filter P ys"
    using none by (simp only: filter_append append_Nil2)
  have "filter P (insertLe le x ys) = filter P ?head @ filter P (x # ?tail)"
    by (simp only: insertLe_takeWhile filter_append)
  also have "filter P (x # ?tail) = [x]"
    using none px by simp
  finally show ?thesis using front by simp
qed

lemma filter_sortLe:
  assumes cb: "comparesBy cmp le A"
  shows "set xs \<subseteq> A \<Longrightarrow> \<forall>a\<in>set xs. \<forall>b\<in>set xs. P a \<and> P b \<longrightarrow> le a b \<Longrightarrow>
           filter P (sortLe le xs) = filter P xs"
proof (induction xs rule: rev_induct)
  case Nil
  then show ?case by (simp add: sortLe_Nil)
next
  case (snoc x xs)
  have ih: "filter P (sortLe le xs) = filter P xs"
    using snoc by simp
  show ?case
  proof (cases "P x")
    case True
    have "filter P (insertLe le x (sortLe le xs)) = filter P (sortLe le xs) @ [x]"
    proof (rule filter_insertLe_same [where cmp = cmp and A = A])
      show "comparesBy cmp le A" by (rule cb)
      show "P x" by (rule True)
      show "x \<in> A" using snoc.prems(1) by simp
      show "set (sortLe le xs) \<subseteq> A" using snoc.prems(1) by (simp add: set_sortLe)
      show "sorted_wrt le (sortLe le xs)"
        using snoc.prems(1) by (intro sorted_wrt_sortLe [OF cb]) simp
      show "\<forall>y\<in>set (sortLe le xs). P y \<longrightarrow> le y x"
        using snoc.prems(2) True by (simp add: set_sortLe)
    qed
    with True ih show ?thesis by (simp add: sortLe_snoc)
  next
    case False
    with ih show ?thesis by (simp add: sortLe_snoc filter_insertLe_other)
  qed
qed
subsection \<open>The order of the sorted questions\<close>

text \<open>
  When the sections of the questions are strings of which no two different ones compare
  equal, the sort returns a permutation of its input that is ordered by \<open>questionLe\<close>:
  a question with a blank section stands after every question with a non-blank one,
  non-blank sections go by \<open>localeCompare\<close>, and within one section the numeric order
  ascends. Questions of equal section and order keep their input order, and sorting the
  result again returns it unchanged.
\<close>

lemma question_sort_sorted:
  assumes str: "\<forall>q\<in>set qs. isString (section q)"
      and lc: "strictCompareOn (localeCompare rt) (sectionStrings qs)"
  shows "\<exists>ys. arraySort (compareQuestions rt) qs = Inr ys
           \<and> mset ys = mset qs
           \<and> sorted_wrt (questionLe rt) ys
           \<and> (\<forall>i j. i < j \<and> j < length ys \<and> section (ys ! i) = JString '''' \<longrightarrow>
                 section (ys ! j) = JString '''')
           \<and> (\<forall>s n. filter (\<lambda>q. section q = s \<and> order q = n) ys
                      = filter (\<lambda>q. section q = s \<and> order q = n) qs)
           \<and> arraySort (compareQuestions rt) ys = Inr ys"
proof -
  let ?ys = "sortLe (questionLe rt) qs"
  have cb: "comparesBy (compareQuestions rt) (questionLe rt) (set qs)"
    using str lc by (rule comparesBy_compareQuestions)
  have run: "arraySort (compareQuestions rt) qs = Inr ?ys"
    by (rule arraySort_sortLe [OF cb order_refl])
  have srt: "sorted_wrt (questionLe rt) ?ys"
    by (rule sorted_wrt_sortLe [OF cb order_refl])
  have blank: "\<forall>i j. i < j \<and> j < length ?ys \<and> section (?ys ! i) = JString '''' \<longrightarrow>
                  section (?ys ! j) = JString ''''"
  proof (intro allI impI)
    fix i j
    assume ij: "i < j \<and> j < length ?ys \<and> section (?ys ! i) = JString ''''"
    then have "questionLe rt (?ys ! i) (?ys ! j)"
      using srt by (simp add: sorted_wrt_iff_nth_less)
    then show "section (?ys ! j) = JString ''''"
      using ij by (auto simp: questionLe_def sectionBefore_def split: if_splits)
  qed
  have stable: "\<forall>s n. filter (\<lambda>q. section q = s \<and> order q = n) ?ys
                  = filter (\<lambda>q. section q = s \<and> order q = n) qs"
  proof (intro allI)
    fix s n
    show "filter (\<lambda>q. section q = s \<and> order q = n) ?ys
            = filter (\<lambda>q. section q = s \<and> order q = n) qs"
      by (rule filter_sortLe [OF cb order_refl]) (simp add: questionLe_def)
  qed
  have "set ?ys \<subseteq> set qs" by (simp add: set_sortLe)
  then have "arraySort (compareQuestions rt) ?ys = Inr (sortLe (questionLe rt) ?ys)"
    by (rule arraySort_sortLe [OF cb])
  also have "sortLe (questionLe rt) ?ys = ?ys"
    using srt by (rule sortLe_sorted)
  finally have again: "arraySort (compareQuestions rt) ?ys = Inr ?ys" .
  have "mset ?ys = mset qs" by (rule mset_sortLe)
  with run srt blank stable again show ?thesis
    by (intro exI [of _ ?ys] conjI)
qed

text \<open>
  The example of the specification: a blank section of order 1, then B of order 5, then
  A of order 2, sort to A, B, blank.
\<close>

lemma question_sort_example:
  assumes "localeCompare rt ''A'' ''B'' < 0"
      and "section a = JString ''''" "order a = 1"
      and "section b = JString ''B''" "order b = 5"
      and "section c = JString ''A''" "order c = 2"
  shows "arraySort (compareQuestions rt) [a, b, c] = Inr [c, b, a]"
  using assms by (simp add: arraySort_def compareQuestions_def)

lemma question_sort_example_ascii:
  "arraySort (compareQuestions asciiJs)
     [exampleQuestion '''' 1, exampleQuestion ''B'' 5, exampleQuestion ''A'' 2]
   = Inr [exampleQuestion ''A'' 2, exampleQuestion ''B'' 5, exampleQuestion '''' 1]"
  by (rule question_sort_example) (simp_all add: exampleQuestion_def localeCompare_asciiJs)

text \<open>
  Claim C4 fails in two ways. The comparator tells two sections apart with
  \<^verbatim>\<open>!==\<close> but orders them with \<open>localeCompare\<close>, which is 0 on some different
  strings: with the sections A, A followed by U+0001, and A again, of orders 5, 1 and 3,
  every comparator call of the sort returns 0 and the list is returned unchanged, so in
  section A the order 5 stays before the order 3. And the comparator calls
  \<open>localeCompare\<close> on the raw Section cell: two accepted rows whose Section cells hold
  the numbers 2 and 1 are not sorted at all, the sort throws.
\<close>

theorem question_sort_failure:
  "arraySort (compareQuestions collatingJs)
     [exampleQuestion ''A'' 5, exampleQuestion [CHR ''A'', CHR 0x01] 1, exampleQuestion ''A'' 3]
     = Inr [exampleQuestion ''A'' 5, exampleQuestion [CHR ''A'', CHR 0x01] 1,
            exampleQuestion ''A'' 3]
   \<and> questions (scanRows asciiJs [numberedRow 2 ''Q1'', numberedRow 1 ''Q2''])
       = [numberedQuestion 2 ''Q1'', numberedQuestion 1 ''Q2'']
   \<and> arraySort (compareQuestions asciiJs) [numberedQuestion 2 ''Q1'', numberedQuestion 1 ''Q2'']
       = Inl (TypeError ''a.section.localeCompare is not a function'')"
  by (simp add: arraySort_def compareQuestions_def exampleQuestion_def numberedQuestion_def
        numberedRow_def collatingJs_def ignoringCompare_def asciiJs_def asciiTrim_def
        asciiSpace_def asciiUpper_def asciiParseFloat_def asciiNumberToString_def
        cell_def isBlank_def orElse_def parseOrder_def makeQuestion_def validTypes_def
        isChoiceType_def processRow_def scanRows_def initialScan_def Let_def)

text \<open>
  Claim C9 fails on two accepted rows whose Section cells hold the number 1 and the
  string 0. The first sort calls the comparator with the string section first, which
  compares 0 with 1 as strings and puts the string section in front; sorting that result
  calls the comparator with the number section first, and \<open>localeCompare\<close> on a number
  throws. Sorting the sorted list does not return it.
\<close>

theorem question_sort_not_idempotent:
  "questions (scanRows asciiJs [numberedRow 1 ''Q1'', sectionRow ''0'' ''Q2''])
     = [numberedQuestion 1 ''Q1'', sectionQuestion ''0'' ''Q2'']
   \<and> arraySort (compareQuestions asciiJs) [numberedQuestion 1 ''Q1'', sectionQuestion ''0'' ''Q2'']
       = Inr [sectionQuestion ''0'' ''Q2'', numberedQuestion 1 ''Q1'']
   \<and> arraySort (compareQuestions asciiJs) [sectionQuestion ''0'' ''Q2'', numberedQuestion 1 ''Q1'']
       = Inl (TypeError ''a.section.localeCompare is not a function'')"
  by (simp add: arraySort_def compareQuestions_def numberedQuestion_def sectionQuestion_def
        numberedRow_def sectionRow_def asciiJs_def asciiTrim_def
        asciiSpace_def asciiUpper_def asciiParseFloat_def asciiNumberToString_def
        cell_def isBlank_def orElse_def parseOrder_def makeQuestion_def validTypes_def
        isChoiceType_def processRow_def scanRows_def initialScan_def Let_def)

subsection \<open>The row loop of readQuestionsWithValidation\<close>

lemma section_makeQuestion:
  "section (makeQuestion rt r) = orElse (cell r ''Section'') (JString '''')"
  by (simp add: makeQuestion_def)

lemma nonBlank_orElse:
  "(truthy (orElse c (JString '''')) \<and> orElse c (JString '''') \<noteq> JString '''') = truthy c"
  by (cases c) (auto simp: orElse_def)

lemma processRow_questions:
  "questions (processRow rt st r) = questions st @ questions (processRow rt initialScan r)"
  by (simp add: processRow_def Let_def skip_def reject_def initialScan_def)

lemma processRow_errors:
  "errors (stats (processRow rt st r))
     = errors (stats st) @ errors (stats (processRow rt initialScan r))"
  by (simp add: processRow_def Let_def skip_def reject_def initialScan_def)

lemma processRow_skippedCount:
  "skippedCount (stats (processRow rt st r))
     = skippedCount (stats st) + skippedCount (stats (processRow rt initialScan r))"
  by (simp add: processRow_def Let_def skip_def reject_def initialScan_def)

lemma processRow_sections:
  "sections (processRow rt st r)
     = (if \<not> isBlank rt (cell r ''QuestionText'') \<and> truthy (cell r ''Section'')
        then setAdd (cell r ''Section'') (sections st) else sections st)"
  using nonBlank_orElse [of "cell r ''Section''"]
  by (auto simp: processRow_def Let_def skip_def reject_def section_makeQuestion orElse_def)

lemma foldl_questions:
  "questions (foldl (processRow rt) st rows)
     = questions st @ questions (foldl (processRow rt) initialScan rows)"
proof (induction rows arbitrary: st)
  case Nil
  then show ?case by (simp add: initialScan_def)
next
  case (Cons r rows)
  have "questions (foldl (processRow rt) (processRow rt st r) rows)
          = questions (processRow rt st r) @ questions (foldl (processRow rt) initialScan rows)"
    by (rule Cons.IH)
  moreover have "questions (foldl (processRow rt) (processRow rt initialScan r) rows)
          = questions (processRow rt initialScan r) @ questions (foldl (processRow rt) initialScan rows)"
    by (rule Cons.IH)
  ultimately show ?case
    using processRow_questions [of rt st r] by simp
qed

lemma foldl_errors:
  "errors (stats (foldl (processRow rt) st rows))
     = errors (stats st) @ errors (stats (foldl (processRow rt) initialScan rows))"
proof (induction rows arbitrary: st)
  case Nil
  then show ?case by (simp add: initialScan_def)
next
  case (Cons r rows)
  have "errors (stats (foldl (processRow rt) (processRow rt st r) rows))
          = errors (stats (processRow rt st r))
            @ errors (stats (foldl (processRow rt) initialScan rows))"
    by (rule Cons.IH)
  moreover have "errors (stats (foldl (processRow rt) (processRow rt initialScan r) rows))
          = errors (stats (processRow rt initialScan r))
            @ errors (stats (foldl (processRow rt) initialScan rows))"
    by (rule Cons.IH)
  ultimately show ?case
    using processRow_errors [of rt st r] by simp
qed

lemma foldl_skippedCount:
  "skippedCount (stats (foldl (processRow rt) st rows))
     = skippedCount (stats st) + skippedCount (stats (foldl (processRow rt) initialScan rows))"
proof (induction rows arbitrary: st)
  case Nil
  then show ?case by (simp add: initialScan_def)
next
  case (Cons r rows)
  have "skippedCount (stats (foldl (processRow rt) (processRow rt st r) rows))
          = skippedCount (stats (processRow rt st r))
            + skippedCount (stats (foldl (processRow rt) initialScan rows))"
    by (rule Cons.IH)
  moreover have "skippedCount (stats (foldl (processRow rt) (processRow rt initialScan r) rows))
          = skippedCount (stats (processRow rt initialScan r))
            + skippedCount (stats (foldl (processRow rt) initialScan rows))"
    by (rule Cons.IH)
  ultimately show ?case
    using processRow_skippedCount [of rt st r] by simp
qed

lemma scanRows_single: "scanRows rt [r] = processRow rt initialScan r"
  by (simp add: scanRows_def)

lemma scanRows_append_questions:
  "questions (scanRows rt (xs @ ys)) = questions (scanRows rt xs) @ questions (scanRows rt ys)"
  using foldl_questions [of rt "foldl (processRow rt) initialScan xs" ys]
  by (simp add: scanRows_def)

lemma scanRows_append_errors:
  "errors (stats (scanRows rt (xs @ ys)))
     = errors (stats (scanRows rt xs)) @ errors (stats (scanRows rt ys))"
  using foldl_errors [of rt "foldl (processRow rt) initialScan xs" ys]
  by (simp add: scanRows_def)

lemma scanRows_append_skippedCount:
  "skippedCount (stats (scanRows rt (xs @ ys)))
     = skippedCount (stats (scanRows rt xs)) + skippedCount (stats (scanRows rt ys))"
  using foldl_skippedCount [of rt "foldl (processRow rt) initialScan xs" ys]
  by (simp add: scanRows_def)

lemma set_setAdd: "set (setAdd v vs) = insert v (set vs)"
  by (auto simp: setAdd_def)

lemma distinct_setAdd: "distinct vs \<Longrightarrow> distinct (setAdd v vs)"
  by (simp add: setAdd_def)

lemma foldl_sections_set:
  "set (sections (foldl (processRow rt) st rows))
     = set (sections st) \<union> set (trackedSections rt rows)"
  by (induction rows arbitrary: st)
     (auto simp: trackedSections_def processRow_sections set_setAdd)

lemma foldl_sections_distinct:
  "distinct (sections st) \<Longrightarrow> distinct (sections (foldl (processRow rt) st rows))"
  by (induction rows arbitrary: st) (simp_all add: processRow_sections distinct_setAdd)

lemma scanRows_sections_length:
  "length (sections (scanRows rt rows)) = card (set (trackedSections rt rows))"
proof -
  have "distinct (sections (scanRows rt rows))"
    unfolding scanRows_def by (rule foldl_sections_distinct) (simp add: initialScan_def)
  then have "length (sections (scanRows rt rows)) = card (set (sections (scanRows rt rows)))"
    by (simp add: distinct_card)
  also have "set (sections (scanRows rt rows)) = set (trackedSections rt rows)"
    by (simp add: scanRows_def foldl_sections_set initialScan_def)
  finally show ?thesis .
qed

text \<open>
  Claim C1, as amended. The \<open>sectionsCount\<close> that \<open>readQuestionsWithValidation\<close>
  returns is the number of distinct truthy Section cells among all rows whose question text
  is not blank, the rows that are rejected afterwards included: the loop adds the section
  to its set before it checks the options and the type.
\<close>

theorem sectionsCount_tracked:
  assumes "readQuestionsWithValidation rt (Some rows) = Inr res"
  shows "sectionsCount (stats res) = card (set (trackedSections rt rows))"
proof (cases "rows = []")
  case True
  with assms show ?thesis
    by (auto simp: readQuestionsWithValidation_def initialScan_def trackedSections_def)
next
  case False
  with assms show ?thesis
    by (auto simp: readQuestionsWithValidation_def Let_def scanRows_sections_length
             split: sum.splits)
qed

subsection \<open>Rejected rows\<close>

lemma handleGenerateForm_compile:
  assumes "readRespondentDetails rt rr = Inr rds" and "rows \<noteq> []"
      and "arraySort (compareQuestions rt) (questions (scanRows rt rows)) = Inr qs"
      and "0 < skippedCount (stats (scanRows rt rows)) \<or> qs \<noteq> []"
  shows "form (handleGenerateForm rt False rr rows) = Some (buildForm rt rds qs)"
  using assms
  by (auto simp: handleGenerateForm_def readQuestionsWithValidation_def Let_def)

lemma processRow_invalid_type:
  assumes "\<not> isBlank rt (cell r ''QuestionText'')"
      and "type (makeQuestion rt r) \<notin> set validTypes"
  shows "questions (processRow rt initialScan r) = []"
    and "skippedCount (stats (processRow rt initialScan r)) = 1"
    and "errors (stats (processRow rt initialScan r)) = [invalidTypeError (makeQuestion rt r)]"
  using assms
  by (auto simp: processRow_def Let_def reject_def initialScan_def isChoiceType_def validTypes_def)

lemma collectOptions_blank:
  assumes "\<forall>c\<in>set optionColumns. isBlank rt (cell r c)"
  shows "collectOptions rt r = []"
  using assms by (simp add: collectOptions_def optionColumns_def isBlank_def Let_def split: if_splits)

lemma processRow_no_options:
  assumes "\<not> isBlank rt (cell r ''QuestionText'')"
      and "isChoiceType (type (makeQuestion rt r))"
      and "\<forall>c\<in>set optionColumns. isBlank rt (cell r c)"
  shows "questions (processRow rt initialScan r) = []"
    and "skippedCount (stats (processRow rt initialScan r)) = 1"
    and "errors (stats (processRow rt initialScan r)) = [noOptionsError (makeQuestion rt r)]"
  using assms(1,2) collectOptions_blank [OF assms(3)]
  by (auto simp: processRow_def Let_def reject_def initialScan_def noOptionsError_def)

lemma scanRows_drop_row:
  assumes "questions (processRow rt initialScan r) = []"
  shows "questions (scanRows rt (pre @ r # post)) = questions (scanRows rt (pre @ post))"
proof -
  have "questions (scanRows rt (pre @ [r] @ post))
          = questions (scanRows rt pre) @ questions (scanRows rt [r]) @ questions (scanRows rt post)"
    by (simp only: scanRows_append_questions)
  then show ?thesis
    using assms by (simp add: scanRows_single scanRows_append_questions)
qed

lemma scanRows_skipped_row:
  assumes "skippedCount (stats (processRow rt initialScan r)) = 1"
  shows "skippedCount (stats (scanRows rt (pre @ r # post)))
           = skippedCount (stats (scanRows rt (pre @ post))) + 1"
proof -
  have "skippedCount (stats (scanRows rt (pre @ [r] @ post)))
          = skippedCount (stats (scanRows rt pre)) + (skippedCount (stats (scanRows rt [r]))
            + skippedCount (stats (scanRows rt post)))"
    by (simp only: scanRows_append_skippedCount)
  then show ?thesis
    using assms by (simp add: scanRows_single scanRows_append_skippedCount)
qed

lemma scanRows_error_row:
  assumes "errors (stats (processRow rt initialScan r)) = [m]"
  shows "errors (stats (scanRows rt (pre @ r # post)))
           = errors (stats (scanRows rt pre)) @ [m] @ errors (stats (scanRows rt post))"
proof -
  have "errors (stats (scanRows rt (pre @ [r] @ post)))
          = errors (stats (scanRows rt pre)) @ errors (stats (scanRows rt [r]))
            @ errors (stats (scanRows rt post))"
    by (simp only: scanRows_append_errors)
  then show ?thesis
    using assms by (simp add: scanRows_single)
qed

lemma compile_without_row:
  assumes q: "questions (processRow rt initialScan r) = []"
      and s: "skippedCount (stats (processRow rt initialScan r)) = 1"
      and rd: "readRespondentDetails rt rr = Inr rds"
      and srt: "arraySort (compareQuestions rt) (questions (scanRows rt (pre @ post))) = Inr qs"
  shows "form (handleGenerateForm rt False rr (pre @ r # post)) = Some (buildForm rt rds qs)"
proof (rule handleGenerateForm_compile [OF rd])
  show "pre @ r # post \<noteq> []" by simp
  show "arraySort (compareQuestions rt) (questions (scanRows rt (pre @ r # post))) = Inr qs"
    using srt by (simp add: scanRows_drop_row [OF q])
  show "0 < skippedCount (stats (scanRows rt (pre @ r # post))) \<or> qs \<noteq> []"
    by (simp add: scanRows_skipped_row [OF s])
qed

text \<open>
  Claim C2. Let a row have a non-blank question text and a normalized type outside the
  five valid types. Among any other rows, the row adds no question (the scan accepts the
  same questions as without it), it raises \<open>skippedCount\<close> by one, and it adds one
  entry to \<open>errors\<close>, of the form given, at the row's place in scan order. The
  instruction stream of a compile is built from the questions of the other rows alone.
\<close>

theorem invalid_type_row_rejected:
  assumes nb: \<open>\<not> isBlank rt (cell r ''QuestionText'')\<close>
      and ty: \<open>type (makeQuestion rt r) \<notin> set validTypes\<close>
  shows \<open>questions (scanRows rt (pre @ r # post)) = questions (scanRows rt (pre @ post))
       \<and> skippedCount (stats (scanRows rt (pre @ r # post)))
           = skippedCount (stats (scanRows rt (pre @ post))) + 1
       \<and> errors (stats (scanRows rt (pre @ r # post)))
           = errors (stats (scanRows rt pre))
             @ [''Question "'' @ ToString rt (cell r ''QuestionText'') @ ''" has invalid type: ''
                  @ type (makeQuestion rt r)]
             @ errors (stats (scanRows rt post))
       \<and> (\<forall>rds qs. readRespondentDetails rt rr = Inr rds
             \<and> arraySort (compareQuestions rt) (questions (scanRows rt (pre @ post))) = Inr qs
            \<longrightarrow> form (handleGenerateForm rt False rr (pre @ r # post)) = Some (buildForm rt rds qs))\<close>
proof -
  note row = processRow_invalid_type [OF nb ty]
  have msg: \<open>invalidTypeError (makeQuestion rt r)
      = ''Question "'' @ ToString rt (cell r ''QuestionText'') @ ''" has invalid type: ''
          @ type (makeQuestion rt r)\<close>
    by (simp add: invalidTypeError_def makeQuestion_def)
  show ?thesis
    using scanRows_drop_row [OF row(1)] scanRows_skipped_row [OF row(2)]
      scanRows_error_row [OF row(3)] compile_without_row [OF row(1) row(2)] msg
    by simp
qed

text \<open>
  Claim C3. Let a row have a non-blank question text, a normalized type MCQ, CHECKBOX
  or DROPDOWN, and blank or absent cells in Option1 to Option5. Among any other rows, the
  row adds no question, raises \<open>skippedCount\<close> by one and adds one entry to
  \<open>errors\<close>, of the form given. As the only row it yields \<open>questionsCount = 0\<close>,
  \<open>skippedCount = 1\<close> and that single error, and the dry run reports these stats.
\<close>

theorem no_options_row_rejected:
  assumes nb: \<open>\<not> isBlank rt (cell r ''QuestionText'')\<close>
      and ty: \<open>type (makeQuestion rt r) \<in> {''MCQ'', ''CHECKBOX'', ''DROPDOWN''}\<close>
      and op: \<open>\<forall>c\<in>set optionColumns. isBlank rt (cell r c)\<close>
  shows \<open>questions (scanRows rt (pre @ r # post)) = questions (scanRows rt (pre @ post))
       \<and> skippedCount (stats (scanRows rt (pre @ r # post)))
           = skippedCount (stats (scanRows rt (pre @ post))) + 1
       \<and> errors (stats (scanRows rt (pre @ r # post)))
           = errors (stats (scanRows rt pre))
             @ [''Question "'' @ ToString rt (cell r ''QuestionText'') @ ''" has type ''
                  @ type (makeQuestion rt r) @ '' but no options'']
             @ errors (stats (scanRows rt post))
       \<and> (\<exists>n. readQuestionsWithValidation rt (Some [r])
              = Inr \<lparr> questions = [],
                      stats = \<lparr> sectionsCount = n, questionsCount = 0, skippedCount = 1,
                                errors = [''Question "'' @ ToString rt (cell r ''QuestionText'')
                                            @ ''" has type '' @ type (makeQuestion rt r)
                                            @ '' but no options''] \<rparr> \<rparr>)
       \<and> ok (handleGenerateForm rt True rr [r])
       \<and> (\<exists>n. response.stats (handleGenerateForm rt True rr [r])
              = Some \<lparr> sectionsCount = n, questionsCount = 0, skippedCount = 1,
                        errors = [''Question "'' @ ToString rt (cell r ''QuestionText'')
                                    @ ''" has type '' @ type (makeQuestion rt r)
                                    @ '' but no options''] \<rparr>)\<close>
proof -
  have ch: "isChoiceType (type (makeQuestion rt r))"
    using ty by (simp add: isChoiceType_def)
  note row = processRow_no_options [OF nb ch op]
  have msg: \<open>noOptionsError (makeQuestion rt r)
      = ''Question "'' @ ToString rt (cell r ''QuestionText'') @ ''" has type ''
          @ type (makeQuestion rt r) @ '' but no options''\<close>
    by (simp add: noOptionsError_def makeQuestion_def)
  have single: \<open>readQuestionsWithValidation rt (Some [r])
      = Inr \<lparr> questions = [],
              stats = \<lparr> sectionsCount = length (sections (processRow rt initialScan r)),
                        questionsCount = 0, skippedCount = 1,
                        errors = [noOptionsError (makeQuestion rt r)] \<rparr> \<rparr>\<close>
  proof -
    have "stats (processRow rt initialScan r)
        = \<lparr> sectionsCount = 0, questionsCount = 0, skippedCount = 1,
            errors = [noOptionsError (makeQuestion rt r)] \<rparr>"
      using nb ch collectOptions_blank [OF op]
      by (auto simp: processRow_def Let_def reject_def initialScan_def noOptionsError_def)
    then show ?thesis
      using row(1) by (simp add: readQuestionsWithValidation_def scanRows_single)
  qed
  have dry: \<open>ok (handleGenerateForm rt True rr [r])
       \<and> response.stats (handleGenerateForm rt True rr [r])
           = Some \<lparr> sectionsCount = length (sections (processRow rt initialScan r)),
                     questionsCount = 0, skippedCount = 1,
                     errors = [noOptionsError (makeQuestion rt r)] \<rparr>\<close>
    using single by (simp add: handleGenerateForm_def readRespondentDetails_sortLe)
  show ?thesis
    using scanRows_drop_row [OF row(1)] scanRows_skipped_row [OF row(2)]
      scanRows_error_row [OF row(3)] msg single dry
    by auto
qed

subsection \<open>Evaluation on the example inputs\<close>

lemmas runtime_simps =
  asciiJs_def asciiTrim_def asciiSpace_def asciiUpper_def asciiParseFloat_def
  asciiNumberToString_def

lemmas reader_simps =
  cell_def isBlank_def orElse_def parseOrder_def makeQuestion_def makeField_def
  collectOptions_def optionColumns_def validTypes_def isChoiceType_def
  processRow_def scanRows_def initialScan_def skip_def reject_def setAdd_def
  invalidTypeError_def noOptionsError_def respondentRow_def readRespondentDetails_def
  readQuestionsWithValidation_def compareQuestions_def compareFields_def arraySort_def
  Let_def

lemmas form_simps =
  buildForm_def respondentItem_def questionItem_def sectionBreak_def respondentBreak_def
  surveyBreak_def handleGenerateForm_def createErrorResponse_def

text \<open>
  Claim C1 as stated fails: a single row of type BOGUS in section General is rejected,
  so no question is accepted and the accepted questions have no section, yet
  \<open>sectionsCount\<close> is 1.
\<close>

theorem sectionsCount_counterexample:
  \<open>readQuestionsWithValidation asciiJs (Some [bogusRow])
     = Inr \<lparr> questions = [],
             stats = \<lparr> sectionsCount = 1, questionsCount = 0, skippedCount = 1,
                       errors = [''Question "Q1" has invalid type: BOGUS''] \<rparr> \<rparr>
   \<and> distinctSections [] = 0\<close>
  by (simp add: bogusRow_def distinctSections_def runtime_simps reader_simps)

theorem sectionsCount_tracked_witness:
  \<open>readQuestionsWithValidation asciiJs (Some [bogusRow])
     = Inr \<lparr> questions = [],
             stats = \<lparr> sectionsCount = 1, questionsCount = 0, skippedCount = 1,
                       errors = [''Question "Q1" has invalid type: BOGUS''] \<rparr> \<rparr>
   \<and> card (set (trackedSections asciiJs [bogusRow])) = 1\<close>
proof -
  have run: \<open>readQuestionsWithValidation asciiJs (Some [bogusRow])
     = Inr \<lparr> questions = [],
             stats = \<lparr> sectionsCount = 1, questionsCount = 0, skippedCount = 1,
                       errors = [''Question "Q1" has invalid type: BOGUS''] \<rparr> \<rparr>\<close>
    by (simp add: bogusRow_def runtime_simps reader_simps)
  from sectionsCount_tracked [OF run] run show ?thesis by simp
qed

theorem invalid_type_row_rejected_witness:
  \<open>questions (scanRows asciiJs [bogusRow]) = []
   \<and> skippedCount (stats (scanRows asciiJs [bogusRow])) = 1
   \<and> errors (stats (scanRows asciiJs [bogusRow])) = [''Question "Q1" has invalid type: BOGUS'']
   \<and> form (handleGenerateForm asciiJs False [] [bogusRow]) = Some []\<close>
proof -
  have nb: \<open>\<not> isBlank asciiJs (cell bogusRow ''QuestionText'')\<close>
    by (simp add: bogusRow_def runtime_simps reader_simps)
  have ty: \<open>type (makeQuestion asciiJs bogusRow) \<notin> set validTypes\<close>
    by (simp add: bogusRow_def runtime_simps reader_simps)
  have tx: \<open>ToString asciiJs (cell bogusRow ''QuestionText'') = ''Q1''\<close>
       \<open>type (makeQuestion asciiJs bogusRow) = ''BOGUS''\<close>
    by (simp_all add: bogusRow_def runtime_simps reader_simps)
  have rd: \<open>readRespondentDetails asciiJs [] = Inr []\<close>
    by (simp add: readRespondentDetails_def)
  have em: \<open>questions (scanRows asciiJs []) = []\<close> \<open>errors (stats (scanRows asciiJs [])) = []\<close>
       \<open>skippedCount (stats (scanRows asciiJs [])) = 0\<close>
    by (simp_all add: scanRows_def initialScan_def)
  from invalid_type_row_rejected [OF nb ty, of "[]" "[]" "[]"] tx rd em
  show ?thesis by (simp add: buildForm_def)
qed

theorem no_options_row_rejected_witness:
  \<open>questions (scanRows asciiJs [checkboxRow]) = []
   \<and> skippedCount (stats (scanRows asciiJs [checkboxRow])) = 1
   \<and> errors (stats (scanRows asciiJs [checkboxRow]))
       = [''Question "Pick" has type CHECKBOX but no options'']
   \<and> readQuestionsWithValidation asciiJs (Some [checkboxRow])
       = Inr \<lparr> questions = [],
               stats = \<lparr> sectionsCount = 0, questionsCount = 0, skippedCount = 1,
                         errors = [''Question "Pick" has type CHECKBOX but no options''] \<rparr> \<rparr>
   \<and> ok (handleGenerateForm asciiJs True [] [checkboxRow])\<close>
proof -
  have nb: \<open>\<not> isBlank asciiJs (cell checkboxRow ''QuestionText'')\<close>
    by (simp add: checkboxRow_def runtime_simps reader_simps)
  have ty: \<open>type (makeQuestion asciiJs checkboxRow) \<in> {''MCQ'', ''CHECKBOX'', ''DROPDOWN''}\<close>
    by (simp add: checkboxRow_def runtime_simps reader_simps)
  have op: \<open>\<forall>c\<in>set optionColumns. isBlank asciiJs (cell checkboxRow c)\<close>
    by (simp add: checkboxRow_def runtime_simps reader_simps)
  have tx: \<open>ToString asciiJs (cell checkboxRow ''QuestionText'') = ''Pick''\<close>
       \<open>type (makeQuestion asciiJs checkboxRow) = ''CHECKBOX''\<close>
    by (simp_all add: checkboxRow_def runtime_simps reader_simps)
  have em: \<open>questions (scanRows asciiJs []) = []\<close> \<open>errors (stats (scanRows asciiJs [])) = []\<close>
       \<open>skippedCount (stats (scanRows asciiJs [])) = 0\<close>
    by (simp_all add: scanRows_def initialScan_def)
  have run: \<open>readQuestionsWithValidation asciiJs (Some [checkboxRow])
     = Inr \<lparr> questions = [],
             stats = \<lparr> sectionsCount = 0, questionsCount = 0, skippedCount = 1,
                       errors = [''Question "Pick" has type CHECKBOX but no options''] \<rparr> \<rparr>\<close>
    by (simp add: checkboxRow_def runtime_simps reader_simps)
  from no_options_row_rejected [OF nb ty op, of "[]" "[]" "[]"] tx em run
  show ?thesis by simp
qed

subsection \<open>The instruction stream\<close>







subsection \<open>The respondent block\<close>

lemma respondentItems_known:
  "concat (map respondentItem fs) = map fieldItem (filter (\<lambda>f. knownFieldType (type f)) fs)"
  by (induction fs) (auto simp: respondentItem_def fieldItem_def knownFieldType_def fieldKind_def)

lemma buildForm_respondents:
  "respondentDetails \<noteq> [] \<Longrightarrow>
     buildForm rt respondentDetails qs
       = respondentBreak # map fieldItem (filter (\<lambda>f. knownFieldType (type f)) respondentDetails)
         @ surveyBreak # addQuestions rt None qs"
  by (simp add: buildForm_def respondentItems_known)

lemma sorted_sortLe_fieldLe: "sorted (map order (sortLe fieldLe fs))"
proof -
  have "sorted_wrt fieldLe (sortLe fieldLe fs)"
    by (rule sorted_wrt_sortLe [OF comparesBy_compareFields]) simp
  then show ?thesis
    by (simp add: sorted_map fieldLe_def [abs_def])
qed

text \<open>
  Claim C6, as amended. When the list of respondent fields is not empty, the stream is
  the page break Respondent Information, then one item for each field whose type is TEXT,
  PARAGRAPH or DROPDOWN, in list order (title the field name, the field's required flag,
  options for DROPDOWN only), then the page break Survey Questions, then the
  instructions of the questions. A field of another type adds no item. The list that
  \<open>readRespondentDetails\<close> returns is in ascending order of \<open>order\<close>.
\<close>

theorem respondent_block:
  \<open>(respondentDetails \<noteq> [] \<longrightarrow>
      buildForm rt respondentDetails qs
        = PageBreak ''Respondent Information''
            ''Please provide your details before proceeding to the survey questions.''
          # map fieldItem (filter (\<lambda>f. knownFieldType (type f)) respondentDetails)
          @ PageBreak ''Survey Questions'' ''Please answer the following questions.''
          # addQuestions rt None qs)
   \<and> (\<exists>rds. readRespondentDetails rt rows = Inr rds
          \<and> sorted (map order rds)
          \<and> mset rds = mset (concat (map (respondentRow rt) rows)))\<close>
  using buildForm_respondents [of respondentDetails rt qs]
    readRespondentDetails_sortLe [of rt rows]
    sorted_sortLe_fieldLe [of "concat (map (respondentRow rt) rows)"]
    mset_sortLe [of fieldLe "concat (map (respondentRow rt) rows)"]
  by (simp add: respondentBreak_def surveyBreak_def)

subsection \<open>Compiling the examples\<close>

text \<open>
  Claim C6 as stated fails: the row Mail of type EMAIL is kept by
  \<open>readRespondentDetails\<close>, so the list is not empty and both page breaks are emitted,
  but the field gets no item.
\<close>

theorem respondent_block_counterexample:
  \<open>readRespondentDetails asciiJs [mailRow] = Inr [mailField]
   \<and> buildForm asciiJs [mailField] []
       = [PageBreak ''Respondent Information''
            ''Please provide your details before proceeding to the survey questions.'',
          PageBreak ''Survey Questions'' ''Please answer the following questions.'']\<close>
  by (simp add: mailRow_def mailField_def runtime_simps reader_simps form_simps)

theorem respondent_block_witness:
  \<open>readRespondentDetails asciiJs [mailRow, nameRow] = Inr [mailField, nameField]
   \<and> buildForm asciiJs [mailField, nameField] []
       = [PageBreak ''Respondent Information''
            ''Please provide your details before proceeding to the survey questions.'',
          Item TEXT ''Name'' True [],
          PageBreak ''Survey Questions'' ''Please answer the following questions.'']\<close>
proof -
  have rd: \<open>readRespondentDetails asciiJs [mailRow, nameRow] = Inr [mailField, nameField]\<close>
    by (simp add: mailRow_def mailField_def nameRow_def nameField_def runtime_simps reader_simps)
  have it: \<open>map fieldItem (filter (\<lambda>f. knownFieldType (type f)) [mailField, nameField])
              = [Item TEXT ''Name'' True []]\<close>
    by (simp add: mailField_def nameField_def fieldItem_def knownFieldType_def fieldKind_def)
  from respondent_block [of "[mailField, nameField]" asciiJs "[]" "[mailRow, nameRow]"] rd it
  show ?thesis by simp
qed

text \<open>
  Claim C7. With no respondent field and one row whose question text is Age?, whose
  normalized type is TEXT, whose Required cell reads true and whose Section cell is blank
  (the example names no section), compile answers with the one-instruction stream
  \<open>Item TEXT Age? required\<close> and no page break.
\<close>

theorem single_text_question:
  assumes rd: \<open>readRespondentDetails rt respondentRows = Inr []\<close>
      and qt: \<open>cell r ''QuestionText'' = JString ''Age?''\<close>
      and nb: \<open>\<not> isBlank rt (cell r ''QuestionText'')\<close>
      and ty: \<open>type (makeQuestion rt r) = ''TEXT''\<close>
      and rq: \<open>required (makeQuestion rt r)\<close>
      and sc: \<open>\<not> truthy (cell r ''Section'')\<close>
  shows \<open>handleGenerateForm rt False respondentRows [r]
           = \<lparr> ok = True, message = ''Form created successfully'',
               stats = Some \<lparr> sectionsCount = 0, questionsCount = 1, skippedCount = 0,
                               errors = [] \<rparr>,
               form = Some [Item TEXT ''Age?'' True []] \<rparr>\<close>
proof -
  let ?q = "makeQuestion rt r"
  have sec: "section ?q = JString ''''"
    using sc by (simp add: makeQuestion_def orElse_def)
  have qtx: "questionText ?q = ''Age?''"
    using qt by (simp add: makeQuestion_def)
  have scan: "scanRows rt [r] = initialScan\<lparr> questions := [?q] \<rparr>"
    using nb ty sec
    by (simp add: scanRows_def processRow_def Let_def isChoiceType_def validTypes_def
          initialScan_def)
  have item: "questionItem ?q = [Item TEXT ''Age?'' True []]"
    using ty rq qtx by (simp add: questionItem_def)
  have "readQuestionsWithValidation rt (Some [r])
          = Inr \<lparr> questions = [?q],
                  stats = \<lparr> sectionsCount = 0, questionsCount = 1, skippedCount = 0,
                            errors = [] \<rparr> \<rparr>"
    by (simp add: readQuestionsWithValidation_def scan initialScan_def)
  then show ?thesis
    using rd sec item by (simp add: handleGenerateForm_def buildForm_def)
qed

theorem single_text_question_witness:
  \<open>handleGenerateForm asciiJs False [] [ageRow]
     = \<lparr> ok = True, message = ''Form created successfully'',
         stats = Some \<lparr> sectionsCount = 0, questionsCount = 1, skippedCount = 0, errors = [] \<rparr>,
         form = Some [Item TEXT ''Age?'' True []] \<rparr>\<close>
proof -
  have rd: \<open>readRespondentDetails asciiJs [] = Inr []\<close>
    by (simp add: readRespondentDetails_def)
  have qt: \<open>cell ageRow ''QuestionText'' = JString ''Age?''\<close>
    by (simp add: ageRow_def cell_def)
  have nb: \<open>\<not> isBlank asciiJs (cell ageRow ''QuestionText'')\<close>
    by (simp add: ageRow_def runtime_simps reader_simps)
  have ty: \<open>type (makeQuestion asciiJs ageRow) = ''TEXT''\<close>
    by (simp add: ageRow_def runtime_simps reader_simps)
  have rq: \<open>required (makeQuestion asciiJs ageRow)\<close>
    by (simp add: ageRow_def runtime_simps reader_simps)
  have sc: \<open>\<not> truthy (cell ageRow ''Section'')\<close>
    by (simp add: ageRow_def cell_def)
  show ?thesis
    by (rule single_text_question [OF rd qt nb ty rq sc])
qed

text \<open>
  Claim C8 fails on two rows whose Section cells hold the numbers 1 and 2. Both rows are
  accepted and none is skipped, but the comparator of the sort calls
  \<open>localeCompare\<close> on a number; the exception is caught by \<open>handleGenerateForm\<close>,
  which answers with \<open>ok = false\<close>.
\<close>

theorem numeric_sections_failure:
  \<open>handleGenerateForm asciiJs True [] [numberedRow 1 ''Q1'', numberedRow 2 ''Q2'']
     = \<lparr> ok = False,
         message = ''Failed to generate form: TypeError: a.section.localeCompare is not a function'',
         stats = None, form = None \<rparr>
   \<and> handleGenerateForm asciiJs False [] [numberedRow 1 ''Q1'', numberedRow 2 ''Q2'']
     = \<lparr> ok = False,
         message = ''Failed to generate form: TypeError: a.section.localeCompare is not a function'',
         stats = None, form = None \<rparr>
   \<and> length (questions (scanRows asciiJs [numberedRow 1 ''Q1'', numberedRow 2 ''Q2''])) = 2
   \<and> skippedCount (stats (scanRows asciiJs [numberedRow 1 ''Q1'', numberedRow 2 ''Q2''])) = 0\<close>
  by (simp add: numberedRow_def runtime_simps reader_simps form_simps)

subsection \<open>Respondent rows of unknown type\<close>

lemma concat_singletons:
  "\<forall>x\<in>set xs. f x = [g x] \<Longrightarrow> concat (map f xs) = map g xs"
  by (induction xs) simp_all

lemma respondentRow_unknown:
  assumes "\<not> isBlank rt (cell r ''FieldName'')"
      and "\<not> knownFieldType (type (makeField rt r))"
  shows "respondentRow rt r = [makeField rt r]"
  using assms by (simp add: respondentRow_def Let_def knownFieldType_def)

lemma respondentItem_unknown:
  "\<not> knownFieldType (type f) \<Longrightarrow> respondentItem f = []"
  by (simp add: respondentItem_def knownFieldType_def)

lemma handleGenerateForm_stats_respondents:
  "response.stats (handleGenerateForm rt dryRun rows questionRows)
     = response.stats (handleGenerateForm rt dryRun [] questionRows)"
  by (simp add: handleGenerateForm_def readRespondentDetails_sortLe createErrorResponse_def
           split: sum.splits)

text \<open>
  Whenever reading the questions does not throw, the answer is a failure exactly when no
  question is accepted and no row is skipped.
\<close>

lemma handleGenerateForm_ok:
  assumes "readQuestionsWithValidation rt (Some questionRows) = Inr res"
  shows "ok (handleGenerateForm rt dryRun respondentRows questionRows)
           = (\<not> (length (questions res) = 0 \<and> skippedCount (stats res) = 0))"
  using assms by (simp add: handleGenerateForm_def readRespondentDetails_sortLe)

text \<open>
  Claim C10. A respondent row with a non-blank field name and a type outside TEXT,
  PARAGRAPH and DROPDOWN is kept in the list that \<open>readRespondentDetails\<close> returns
  and gets no item. When all respondent rows are such rows (and there is one at least),
  the list is as long as the rows and the stream opens with the two page breaks
  Respondent Information and Survey Questions with no item between them. The stats of the
  answer do not depend on the respondent rows.
\<close>

theorem unknown_respondent_type:
  \<open>(r \<in> set rows \<and> \<not> isBlank rt (cell r ''FieldName'')
       \<and> \<not> knownFieldType (type (makeField rt r)) \<longrightarrow>
      (\<exists>rds. readRespondentDetails rt rows = Inr rds \<and> makeField rt r \<in> set rds)
      \<and> respondentItem (makeField rt r) = [])
   \<and> (rows \<noteq> [] \<and> (\<forall>r\<in>set rows. \<not> isBlank rt (cell r ''FieldName'')
                           \<and> \<not> knownFieldType (type (makeField rt r))) \<longrightarrow>
      (\<exists>rds. readRespondentDetails rt rows = Inr rds \<and> length rds = length rows
         \<and> buildForm rt rds qs
             = PageBreak ''Respondent Information''
                 ''Please provide your details before proceeding to the survey questions.''
               # PageBreak ''Survey Questions'' ''Please answer the following questions.''
               # addQuestions rt None qs))
   \<and> response.stats (handleGenerateForm rt dryRun rows questionRows)
       = response.stats (handleGenerateForm rt dryRun [] questionRows)\<close>
proof -
  let ?fs = "concat (map (respondentRow rt) rows)"
  let ?rds = "sortLe fieldLe ?fs"
  have run: "readRespondentDetails rt rows = Inr ?rds"
    by (rule readRespondentDetails_sortLe)
  have one: "makeField rt r \<in> set ?rds \<and> respondentItem (makeField rt r) = []"
    if "r \<in> set rows" "\<not> isBlank rt (cell r ''FieldName'')"
       "\<not> knownFieldType (type (makeField rt r))"
  proof -
    have "makeField rt r \<in> set (respondentRow rt r)"
      using that by (simp add: respondentRow_unknown)
    then have "makeField rt r \<in> set ?fs"
      using that(1) by auto
    then show ?thesis
      using that(3) by (simp add: set_sortLe respondentItem_unknown)
  qed
  have all: "length ?rds = length rows
       \<and> buildForm rt ?rds qs = respondentBreak # surveyBreak # addQuestions rt None qs"
    if ne: "rows \<noteq> []"
      and un: "\<forall>r\<in>set rows. \<not> isBlank rt (cell r ''FieldName'')
                  \<and> \<not> knownFieldType (type (makeField rt r))"
  proof -
    have fs: "?fs = map (makeField rt) rows"
      using un by (intro concat_singletons) (simp add: respondentRow_unknown)
    then have len: "length ?rds = length rows"
      by (simp add: length_sortLe)
    have "\<forall>f\<in>set ?rds. \<not> knownFieldType (type f)"
      using un fs by (auto simp: set_sortLe)
    then have "filter (\<lambda>f. knownFieldType (type f)) ?rds = []"
      by (simp add: filter_empty_conv)
    moreover have "?rds \<noteq> []"
      using len ne by auto
    ultimately show ?thesis
      using len by (simp add: buildForm_respondents)
  qed
  show ?thesis
    using run one all handleGenerateForm_stats_respondents [of rt dryRun rows questionRows]
    by (simp add: respondentBreak_def surveyBreak_def)
qed

theorem unknown_respondent_type_witness:
  \<open>readRespondentDetails asciiJs [mailRow] = Inr [makeField asciiJs mailRow]
   \<and> respondentItem (makeField asciiJs mailRow) = []
   \<and> buildForm asciiJs [makeField asciiJs mailRow] []
       = [PageBreak ''Respondent Information''
            ''Please provide your details before proceeding to the survey questions.'',
          PageBreak ''Survey Questions'' ''Please answer the following questions.'']\<close>
proof -
  have nb: \<open>\<not> isBlank asciiJs (cell mailRow ''FieldName'')\<close>
    by (simp add: mailRow_def runtime_simps reader_simps)
  have ty: \<open>\<not> knownFieldType (type (makeField asciiJs mailRow))\<close>
    by (simp add: mailRow_def knownFieldType_def runtime_simps reader_simps)
  have rd: \<open>readRespondentDetails asciiJs [mailRow] = Inr [makeField asciiJs mailRow]\<close>
    using nb ty by (simp add: readRespondentDetails_def respondentRow_unknown)
  from unknown_respondent_type [of mailRow "[mailRow]" asciiJs "[]"] nb ty rd
  show ?thesis by simp
qed

subsection \<open>When reading the questions returns\<close>

lemma processRow_question_section:
  "q \<in> set (questions (processRow rt initialScan r)) \<Longrightarrow>
     section q = orElse (cell r ''Section'') (JString '''')"
  by (auto simp: processRow_def Let_def skip_def reject_def initialScan_def makeQuestion_def
           split: if_splits)

lemma scanRows_question_section:
  "q \<in> set (questions (scanRows rt rows)) \<Longrightarrow>
     \<exists>r\<in>set rows. section q = orElse (cell r ''Section'') (JString '''')"
proof (induction rows rule: rev_induct)
  case Nil
  then show ?case by (simp add: scanRows_def initialScan_def)
next
  case (snoc r rows)
  then show ?case
    using processRow_question_section [of q rt r]
    by (auto simp: scanRows_append_questions scanRows_single)
qed

text \<open>
  With Section cells that are strings or blank the comparator never throws, so the sort
  returns, and the answer is a failure exactly when no question is accepted and no row
  is skipped.
\<close>

lemma readQuestionsWithValidation_returns:
  assumes str: "\<forall>r\<in>set rows. isString (orElse (cell r ''Section'') (JString ''''))"
  shows "\<exists>res. readQuestionsWithValidation rt (Some rows) = Inr res"
proof -
  let ?A = "{q. isString (section q)}"
  have ret: "\<forall>a\<in>?A. \<forall>b\<in>?A. \<exists>c. compareQuestions rt a b = Inr c"
    by (simp add: compareQuestions_returns)
  have "\<forall>q\<in>set (questions (scanRows rt rows)). isString (section q)"
    using str scanRows_question_section [of _ rt rows] by fastforce
  then have "set (questions (scanRows rt rows)) \<subseteq> ?A"
    by blast
  then obtain ys where "arraySort (compareQuestions rt) (questions (scanRows rt rows)) = Inr ys"
    using arraySort_returns [OF ret] by blast
  then show ?thesis
    by (simp add: readQuestionsWithValidation_def Let_def)
qed

lemma handleGenerateForm_ok_strings:
  assumes str: "\<forall>r\<in>set questionRows. isString (orElse (cell r ''Section'') (JString ''''))"
  shows "\<exists>res. readQuestionsWithValidation rt (Some questionRows) = Inr res
           \<and> ok (handleGenerateForm rt dryRun respondentRows questionRows)
               = (\<not> (length (questions res) = 0 \<and> skippedCount (stats res) = 0))"
  using readQuestionsWithValidation_returns [OF str] handleGenerateForm_ok by blast

end
